theory Spec2Isabelle
  imports Main "HOL-Library.Word" "HOL-Library.FSet"
begin

unbundle bit_operations_syntax

section \<open>Machine integers and faults\<close>

text \<open>
  \<open>size_t\<close> and \<open>uintptr_t\<close> are 64-bit unsigned integers whose arithmetic wraps;
  the per-unitig data byte is a \<open>uint8_t\<close>; a Roaring bitmap stores \<open>uint32_t\<close>.
\<close>

type_synonym size_t = "64 word"
type_synonym uint8_t = "8 word"
type_synonym uint32_t = "32 word"

text \<open>
  What the C++ leaves undefined is a value of the model: an integer division or
  remainder by zero, an index outside a container, the use of a null pointer, and
  a loop that never ends.
\<close>

datatype fault = DivisionByZero | OutOfBounds | NullDereference | NonTermination

definition udiv :: "size_t \<Rightarrow> size_t \<Rightarrow> fault + size_t" where
  "udiv a b = (if b = 0 then Inl DivisionByZero else Inr (a div b))"

definition umod :: "size_t \<Rightarrow> size_t \<Rightarrow> fault + size_t" where
  "umod a b = (if b = 0 then Inl DivisionByZero else Inr (a mod b))"

section \<open>ColorKmer_ID (ColorSet.hpp)\<close>

text \<open>
  \<open>ColorKmer_ID\<close> wraps one \<open>size_t ck_id\<close>; its default constructor stores the
  all-ones value. The two accessors write a line to \<open>cerr\<close> when they meet that
  value: the model returns the lines written together with the result.
\<close>

definition invalid_ck_id :: size_t where
  "invalid_ck_id = 0xffffffffffffffff"

definition getColorID :: "size_t \<Rightarrow> size_t \<Rightarrow> fault + (string list \<times> size_t)" where
  "getColorID ck length_unitig_km =
     (if ck = 0xffffffffffffffff
      then Inr ([''ColorKmer_ID:getColorID(): Invalid ColorKmer_ID''], ck)
      else case udiv ck length_unitig_km of
             Inl e \<Rightarrow> Inl e
           | Inr q \<Rightarrow> Inr ([], q))"

definition getKmerPosition :: "size_t \<Rightarrow> size_t \<Rightarrow> fault + (string list \<times> size_t)" where
  "getKmerPosition ck length_unitig_km =
     (if ck = 0xffffffffffffffff
      then Inr ([''ColorKmer_ID:getKmerPosition(): Invalid ColorKmer_ID''], ck)
      else case umod ck length_unitig_km of
             Inl e \<Rightarrow> Inl e
           | Inr r \<Rightarrow> Inr ([], r))"

section \<open>UnitigColors (ColorSet.hpp)\<close>

text \<open>
  A \<open>UnitigColors\<close> is one machine word \<open>setBits\<close> whose two low bits are the flag.
  With flag 0 the other bits are the address of a heap-allocated Roaring bitmap; the
  model keeps that bitmap beside the word, as the finite set of \<open>uint32_t\<close> it holds
  (the Roaring library itself is not part of the repository: its contract is a set of
  32-bit values, enumerated in ascending order).
\<close>

record UnitigColors =
  setBits :: size_t
  bitmap :: "uint32_t fset"

definition maxBitVectorIDs :: size_t where
  "maxBitVectorIDs = 62"

definition ptrCompressedBitmap :: size_t where
  "ptrCompressedBitmap = 0x0"

definition localBitVectorColor :: size_t where
  "localBitVectorColor = 0x1"

definition localSingleColor :: size_t where
  "localSingleColor = 0x2"

definition unoccupied :: size_t where
  "unoccupied = 0x3"

definition flagMask :: size_t where
  "flagMask = 0x3"

definition isUnoccupied :: "UnitigColors \<Rightarrow> bool" where
  "isUnoccupied u = (setBits u AND flagMask = unoccupied)"

definition isOccupied :: "UnitigColors \<Rightarrow> bool" where
  "isOccupied u = (setBits u AND flagMask \<noteq> unoccupied)"

definition setOccupied :: "UnitigColors \<Rightarrow> UnitigColors" where
  "setOccupied u = (if isUnoccupied u then u\<lparr>setBits := localBitVectorColor\<rparr> else u)"

text \<open>
  Modelled from the spec: the default constructor of \<open>UnitigColors\<close> (its body is in
  ColorSet.tcc, which is not among the sources). The header documents it: the object
  is initialised as "unoccupied".
\<close>

definition UnitigColors_new :: UnitigColors where
  "UnitigColors_new = \<lparr>setBits = unoccupied, bitmap = {||}\<rparr>"

text \<open>
  Modelled from the spec: \<open>UnitigColors::size()\<close> (ColorSet.tcc is not among the
  sources), the count of distinct ColorKmerIds held: the cardinality of the bitmap,
  the number of set bits of the 62-bit vector, one for a single id, zero when
  unoccupied.
\<close>

definition size_colors :: "UnitigColors \<Rightarrow> size_t" where
  "size_colors u =
     (let fl = setBits u AND flagMask in
      if fl = ptrCompressedBitmap then of_nat (fcard (bitmap u))
      else if fl = localBitVectorColor
        then of_nat (length (filter (\<lambda>j. bit (setBits u) (j + 2)) [0..<62]))
      else if fl = localSingleColor then 1
      else 0)"

subsection \<open>UnitigColors_const_iterator\<close>

text \<open>
  The iterator's fields, as declared. \<open>cs\<close> is the container iterated (the C++ holds
  its address); \<open>it_roar\<close> is a Roaring iterator, modelled as its position in the
  ascending enumeration of the bitmap, the end iterator being the position one past
  the last value.
\<close>

record const_iterator =
  cs :: UnitigColors
  flag :: size_t
  it_setBits :: size_t
  cs_sz :: size_t
  ck_id :: size_t
  it_roar :: nat

definition roar_end :: "uint32_t fset \<Rightarrow> nat" where
  "roar_end b = fcard b"

definition roar_next :: "uint32_t fset \<Rightarrow> nat \<Rightarrow> nat" where
  "roar_next b i = (if i < fcard b then Suc i else i)"

definition roar_deref :: "uint32_t fset \<Rightarrow> nat \<Rightarrow> size_t" where
  "roar_deref b i = ucast (sorted_list_of_fset b ! i)"

text \<open>The private constructor \<open>UnitigColors_const_iterator(cs, beg)\<close>.\<close>

definition const_iterator_init :: "UnitigColors \<Rightarrow> bool \<Rightarrow> const_iterator" where
  "const_iterator_init c beg =
     (let fl = setBits c AND flagMask;
          roar = (if fl = ptrCompressedBitmap
                  then (if beg then 0 else roar_end (bitmap c))
                  else 0);
          sz = (if fl = ptrCompressedBitmap then size_colors c
                else if fl = localSingleColor then 1 else maxBitVectorIDs)
      in \<lparr>cs = c, flag = fl,
          it_setBits = (if \<not> beg then sz else 0xffffffffffffffff),
          cs_sz = sz, ck_id = 0, it_roar = roar\<rparr>)"

text \<open>
  The \<open>while\<close> loop of \<open>operator++\<close> on a bit vector: from \<open>it_setBits\<close>, stop at the
  first set bit and store its index in \<open>ck_id\<close>. It returns the new \<open>it_setBits\<close> and
  \<open>ck_id\<close>.
\<close>

function bitvec_scan :: "size_t \<Rightarrow> size_t \<Rightarrow> size_t \<Rightarrow> size_t \<times> size_t" where
  "bitvec_scan bits i ck =
     (if i < maxBitVectorIDs
      then (if (drop_bit (unat (i + 2)) bits AND 0x1) \<noteq> 0 then (i, i)
            else bitvec_scan bits (i + 1) ck)
      else (i, ck))"
  by pat_completeness auto
termination
proof (relation "measure (\<lambda>(bits, i, ck). 62 - unat i)")
  show "wf (measure (\<lambda>(bits, i, ck). 62 - unat i))"
    by simp
next
  fix bits i ck :: size_t
  assume "i < maxBitVectorIDs"
  then have "unat i < 62"
    by (simp add: maxBitVectorIDs_def word_less_nat_alt)
  moreover from this have "unat (i + 1) = unat i + 1"
    by (simp add: unat_word_ariths)
  ultimately show "((bits, i + 1, ck), (bits, i, ck)) \<in> measure (\<lambda>(bits, i, ck). 62 - unat i)"
    by simp
qed

declare bitvec_scan.simps [simp del]

text \<open>The prefix \<open>operator++\<close>.\<close>

definition incr :: "const_iterator \<Rightarrow> const_iterator" where
  "incr it =
     (if it_setBits it = cs_sz it then it
      else
        let it1 = it\<lparr>it_setBits := it_setBits it + 1\<rparr> in
        if flag it1 = ptrCompressedBitmap then
          (let it2 = (if it_setBits it1 \<noteq> 0
                      then it1\<lparr>it_roar := roar_next (bitmap (cs it1)) (it_roar it1)\<rparr>
                      else it1)
           in if it_roar it2 \<noteq> roar_end (bitmap (cs it2))
              then it2\<lparr>ck_id := roar_deref (bitmap (cs it2)) (it_roar it2)\<rparr>
              else it2)
        else if flag it1 = localBitVectorColor then
          (let r = bitvec_scan (setBits (cs it1)) (it_setBits it1) (ck_id it1)
           in it1\<lparr>it_setBits := fst r, ck_id := snd r\<rparr>)
        else if flag it1 = localSingleColor then
          it1\<lparr>ck_id := drop_bit 2 (setBits (cs it1))\<rparr>
        else it1)"

text \<open>\<open>operator==\<close>; two iterators over the same container compare equal on \<open>cs\<close>.\<close>

definition it_eq :: "const_iterator \<Rightarrow> const_iterator \<Rightarrow> bool" where
  "it_eq a b =
     (cs a = cs b \<and> flag a = flag b \<and> cs_sz a = cs_sz b \<and>
      (if flag a = ptrCompressedBitmap then it_roar a = it_roar b
       else it_setBits a = it_setBits b))"

definition begin_it :: "UnitigColors \<Rightarrow> const_iterator" where
  "begin_it u = incr (const_iterator_init u True)"

definition end_it :: "UnitigColors \<Rightarrow> const_iterator" where
  "end_it u = const_iterator_init u False"

text \<open>
  The loop every caller writes,
  \<^verbatim>\<open>for (it = cs->begin(), it_end = cs->end(); it != it_end; ++it) ... *it ...\<close>,
  collecting the values of \<open>*it\<close>. Nothing in the loop bounds the number of rounds, so
  the model is a partial function: \<open>None\<close> is a loop that never ends.
\<close>

partial_function (option) iter_loop ::
  "const_iterator \<Rightarrow> const_iterator \<Rightarrow> size_t list \<Rightarrow> size_t list option" where
  "iter_loop it it_end acc =
     (if it_eq it it_end then Some acc
      else iter_loop (incr it) it_end (acc @ [ck_id it]))"

declare iter_loop.simps [code]

definition iterate :: "UnitigColors \<Rightarrow> size_t list option" where
  "iterate u = iter_loop (begin_it u) (end_it u) []"

text \<open>
  The ColorKmerIds a container holds, read off its representation: the values of the
  bitmap, the indices of the set bits of the vector, or the single id.
\<close>

definition color_kmer_ids :: "UnitigColors \<Rightarrow> size_t list" where
  "color_kmer_ids u =
     (let fl = setBits u AND flagMask in
      if fl = ptrCompressedBitmap then map ucast (sorted_list_of_fset (bitmap u))
      else if fl = localBitVectorColor
        then map of_nat (filter (\<lambda>j. bit (setBits u) (j + 2)) [0..<62])
      else if fl = localSingleColor then [drop_bit 2 (setBits u)]
      else [])"

section \<open>The graph and its unitig mappings (CompactedDBG.hpp, UnitigMap.tpp)\<close>

text \<open>
  A k-mer is a string over A, C, G, T. The graph keeps its unitigs in three
  containers: \<open>v_unitigs\<close> (sequences longer than k), \<open>v_kmers\<close> (unitigs of one k-mer)
  and \<open>h_kmers_ccov\<close> (abundant k-mers, a hash table addressed by slot position).
  Each unitig carries its data, here the \<open>HashID\<close> byte of the color layer. A position
  indexes a container, so it is a natural number; the lengths that enter wrapping
  arithmetic stay 64-bit words.
\<close>

type_synonym Kmer = string

record CompactedDBG =
  getK :: size_t
  v_unitigs :: "(string \<times> uint8_t) list"
  v_kmers :: "(Kmer \<times> uint8_t) list"
  h_kmers_ccov :: "(Kmer \<times> uint8_t) list"

text \<open>
  \<open>UnitigMap\<close>, with the fields the color layer reads (\<open>size\<close> is the length of the
  unitig in bases, \<open>dist\<close> and \<open>len\<close> count k-mers).
\<close>

record UnitigMap =
  pos_unitig :: nat
  dist :: size_t
  len :: size_t
  size_um :: size_t
  strand :: bool
  isShort :: bool
  isAbundant :: bool
  isEmpty :: bool

text \<open>The constructor \<open>UnitigMap(p_unitig, i, l, sz, short_, abundance, strd, cdbg_)\<close>.\<close>

definition UnitigMap_new ::
  "nat \<Rightarrow> size_t \<Rightarrow> size_t \<Rightarrow> size_t \<Rightarrow> bool \<Rightarrow> bool \<Rightarrow> bool \<Rightarrow> UnitigMap" where
  "UnitigMap_new p_unitig i l sz short abundance strd =
     \<lparr>pos_unitig = p_unitig, dist = i, len = l, size_um = sz, strand = strd,
      isShort = short, isAbundant = abundance, isEmpty = False\<rparr>"

definition empty_kmer :: Kmer where
  "empty_kmer = []"

definition at_index :: "'a list \<Rightarrow> nat \<Rightarrow> fault + 'a" where
  "at_index xs i = (if i < length xs then Inr (xs ! i) else Inl OutOfBounds)"

definition getHead :: "'a CompactedDBG_scheme \<Rightarrow> UnitigMap \<Rightarrow> fault + Kmer" where
  "getHead g um =
     (if \<not> isEmpty um then
        (if isShort um then map_sum id fst (at_index (v_kmers g) (pos_unitig um))
         else if isAbundant um then map_sum id fst (at_index (h_kmers_ccov g) (pos_unitig um))
         else map_sum id (\<lambda>u. take (unat (getK g)) (fst u))
                (at_index (v_unitigs g) (pos_unitig um)))
      else Inr empty_kmer)"

text \<open>
  \<open>um.getData()->get()\<close>: the byte of the mapped unitig. \<open>getData\<close> returns a null
  pointer for an empty mapping, which the callers then dereference. (It also does so
  for a graph without data; the graph of the color layer is instantiated with the
  \<open>HashID\<close> byte as its data, so \<open>has_data\<close> holds.)
\<close>

definition getData :: "'a CompactedDBG_scheme \<Rightarrow> UnitigMap \<Rightarrow> fault + uint8_t" where
  "getData g um =
     (if isEmpty um then Inl NullDereference
      else if isShort um then map_sum id snd (at_index (v_kmers g) (pos_unitig um))
      else if isAbundant um then map_sum id snd (at_index (h_kmers_ccov g) (pos_unitig um))
      else map_sum id snd (at_index (v_unitigs g) (pos_unitig um)))"

definition set_snd_at :: "('a \<times> 'b) list \<Rightarrow> nat \<Rightarrow> 'b \<Rightarrow> fault + ('a \<times> 'b) list" where
  "set_snd_at xs i b =
     (if i < length xs then Inr (xs[i := (fst (xs ! i), b)]) else Inl OutOfBounds)"

definition setData ::
  "'a CompactedDBG_scheme \<Rightarrow> UnitigMap \<Rightarrow> uint8_t \<Rightarrow> fault + 'a CompactedDBG_scheme" where
  "setData g um b =
     (if isEmpty um then Inr g
      else if isShort um
        then map_sum id (\<lambda>xs. g\<lparr>v_kmers := xs\<rparr>) (set_snd_at (v_kmers g) (pos_unitig um) b)
      else if isAbundant um
        then map_sum id (\<lambda>xs. g\<lparr>h_kmers_ccov := xs\<rparr>)
               (set_snd_at (h_kmers_ccov g) (pos_unitig um) b)
      else map_sum id (\<lambda>xs. g\<lparr>v_unitigs := xs\<rparr>)
             (set_snd_at (v_unitigs g) (pos_unitig um) b))"

text \<open>\<open>CompactedDBG::size()\<close>, the number of unitigs.\<close>

definition size_graph :: "'a CompactedDBG_scheme \<Rightarrow> nat" where
  "size_graph g = length (v_unitigs g) + length (v_kmers g) + length (h_kmers_ccov g)"

text \<open>
  Modelled from the spec: the unitig iterator behind \<open>for (auto& unitig : *this)\<close>
  (UnitigIterator.hpp is not among the sources). It visits every unitig once, as a
  mapping of the whole unitig on the forward strand; the order taken here is the
  three containers one after the other.
\<close>

definition unitigs :: "'a CompactedDBG_scheme \<Rightarrow> UnitigMap list" where
  "unitigs g =
     map (\<lambda>i. UnitigMap_new i 0
                 (of_nat (length (fst (v_unitigs g ! i))) - getK g + 1)
                 (of_nat (length (fst (v_unitigs g ! i)))) False False True)
         [0..<length (v_unitigs g)] @
     map (\<lambda>i. UnitigMap_new i 0 1 (getK g) True False True) [0..<length (v_kmers g)] @
     map (\<lambda>i. UnitigMap_new i 0 1 (getK g) False True True) [0..<length (h_kmers_ccov g)]"

section \<open>The color storage (ColoredCDBG.cpp)\<close>

text \<open>
  \<open>ColoredCDBG\<close> extends the graph with the array \<open>color_sets\<close> (\<open>None\<close> is the null
  pointer the constructor leaves), its length \<open>nb_color_sets\<close>, the overflow table
  \<open>km_overflow\<close> keyed by head k-mer, and the 256 hash seeds.
\<close>

record ColoredCDBG = CompactedDBG +
  color_sets :: "UnitigColors list option"
  nb_color_sets :: nat
  km_overflow :: "Kmer \<rightharpoonup> UnitigColors"
  seeds :: "nat \<Rightarrow> size_t"

text \<open>
  A \<open>ColorSet*\<close> that is not null points either into the array or at an entry of the
  overflow table.
\<close>

datatype cs_ptr = Slot nat | Overflow Kmer

definition seed_at :: "ColoredCDBG \<Rightarrow> nat \<Rightarrow> fault + size_t" where
  "seed_at st i = (if i < 256 then Inr (seeds st i) else Inl OutOfBounds)"

text \<open>
  \<open>head.hash(seed) % nb_color_sets\<close>. \<open>Kmer::hash\<close> is not among the sources: it is the
  parameter \<open>hash\<close> of every function below.
\<close>

definition slot_index :: "(Kmer \<Rightarrow> size_t \<Rightarrow> size_t) \<Rightarrow> ColoredCDBG \<Rightarrow> Kmer \<Rightarrow> size_t \<Rightarrow> fault + nat" where
  "slot_index hash st head seed =
     (if nb_color_sets st = 0 then Inl DivisionByZero
      else Inr (unat (hash head seed) mod nb_color_sets st))"

text \<open>
  \<open>getColorSet(um)\<close>; the const and the non-const overload have the same body. The
  result is the pointer, \<open>None\<close> for \<open>nullptr\<close>.
\<close>

definition getColorSet ::
  "(Kmer \<Rightarrow> size_t \<Rightarrow> size_t) \<Rightarrow> ColoredCDBG \<Rightarrow> UnitigMap \<Rightarrow> fault + cs_ptr option" where
  "getColorSet hash st um =
     (if \<not> isEmpty um \<and> color_sets st \<noteq> None then
        (case getHead st um of
           Inl e \<Rightarrow> Inl e
         | Inr head \<Rightarrow>
             (case getData st um of
                Inl e \<Rightarrow> Inl e
              | Inr hash_id \<Rightarrow>
                  if hash_id = 0 then
                    (if km_overflow st head \<noteq> None then Inr (Some (Overflow head))
                     else Inr None)
                  else
                    (case seed_at st (unat (hash_id - 1)) of
                       Inl e \<Rightarrow> Inl e
                     | Inr seed \<Rightarrow> map_sum id (\<lambda>i. Some (Slot i)) (slot_index hash st head seed))))
      else Inr None)"

text \<open>Reading and writing through a \<open>ColorSet*\<close>.\<close>

definition deref :: "ColoredCDBG \<Rightarrow> cs_ptr \<Rightarrow> fault + UnitigColors" where
  "deref st p =
     (case p of
        Slot i \<Rightarrow> (case color_sets st of
                     None \<Rightarrow> Inl NullDereference
                   | Some arr \<Rightarrow> at_index arr i)
      | Overflow km \<Rightarrow> (case km_overflow st km of
                          None \<Rightarrow> Inl OutOfBounds
                        | Some u \<Rightarrow> Inr u))"

definition assign :: "ColoredCDBG \<Rightarrow> cs_ptr \<Rightarrow> UnitigColors \<Rightarrow> fault + ColoredCDBG" where
  "assign st p u =
     (case p of
        Slot i \<Rightarrow> (case color_sets st of
                     None \<Rightarrow> Inl NullDereference
                   | Some arr \<Rightarrow> if i < length arr
                                then Inr (st\<lparr>color_sets := Some (arr[i := u])\<rparr>)
                                else Inl OutOfBounds)
      | Overflow km \<Rightarrow> (case km_overflow st km of
                          None \<Rightarrow> Inl OutOfBounds
                        | Some _ \<Rightarrow> Inr (st\<lparr>km_overflow := (km_overflow st)(km \<mapsto> u)\<rparr>)))"

subsection \<open>Adding colors\<close>

text \<open>
  Modelled from the spec: \<open>UnitigColors::add\<close> (ColorSet.tcc is not among the sources).
  Adding one ColorKmerId follows the four promotion rules: unoccupied becomes an
  empty bit vector first; a bit vector takes an id below 62 as a bit and otherwise
  becomes a bitmap of its ids and the new one; a single id stays when the new id
  equals it and otherwise becomes a bitmap of both; a bitmap inserts. A bitmap holds
  32-bit values; the address of the allocated bitmap is not modelled and the word is
  left with its flag only.
\<close>

definition bitvec_ids :: "size_t \<Rightarrow> uint32_t list" where
  "bitvec_ids bits = map of_nat (filter (\<lambda>j. bit bits (j + 2)) [0..<62])"

definition add_ck_id :: "UnitigColors \<Rightarrow> size_t \<Rightarrow> UnitigColors" where
  "add_ck_id u0 ck =
     (let u = setOccupied u0; fl = setBits u AND flagMask in
      if fl = localBitVectorColor then
        (if ck < maxBitVectorIDs then u\<lparr>setBits := set_bit (unat ck + 2) (setBits u)\<rparr>
         else \<lparr>setBits = ptrCompressedBitmap,
               bitmap = finsert (ucast ck) (fset_of_list (bitvec_ids (setBits u)))\<rparr>)
      else if fl = localSingleColor then
        (if drop_bit 2 (setBits u) = ck then u
         else \<lparr>setBits = ptrCompressedBitmap,
               bitmap = {|ucast (drop_bit 2 (setBits u)), ucast ck|}\<rparr>)
      else u\<lparr>bitmap := finsert (ucast ck) (bitmap u)\<rparr>)"

text \<open>
  Modelled from the spec: \<open>add(mapping, color_id)\<close> inserts, for each k-mer position
  \<open>p\<close> of the mapping, the id \<open>color_id * K + p\<close> on the forward strand and
  \<open>color_id * K + (K - 1 - p)\<close> on the reverse strand, where \<open>K = size - k + 1\<close> is the
  k-mer count of the mapping's unitig.
\<close>

definition add_positions :: "UnitigMap \<Rightarrow> size_t list" where
  "add_positions um = map (\<lambda>j. dist um + of_nat j) [0..<unat (len um)]"

definition UnitigColors_add :: "size_t \<Rightarrow> UnitigColors \<Rightarrow> UnitigMap \<Rightarrow> size_t \<Rightarrow> UnitigColors" where
  "UnitigColors_add k u um color_id =
     (let K = size_um um - k + 1 in
      fold (\<lambda>p acc. add_ck_id acc (color_id * K + (if strand um then p else K - 1 - p)))
           (add_positions um) u)"

text \<open>\<open>setColor(um, color_id)\<close>: the result and the storage after the call.\<close>

definition setColor ::
  "(Kmer \<Rightarrow> size_t \<Rightarrow> size_t) \<Rightarrow> ColoredCDBG \<Rightarrow> UnitigMap \<Rightarrow> size_t \<Rightarrow> fault + (bool \<times> ColoredCDBG)" where
  "setColor hash st um color_id =
     (if \<not> isEmpty um \<and> color_sets st \<noteq> None then
        (case getColorSet hash st um of
           Inl e \<Rightarrow> Inl e
         | Inr None \<Rightarrow> Inr (False, st)
         | Inr (Some color_set) \<Rightarrow>
             (case deref st color_set of
                Inl e \<Rightarrow> Inl e
              | Inr u \<Rightarrow> map_sum id (\<lambda>st'. (True, st'))
                          (assign st color_set (UnitigColors_add (getK st) u um color_id))))
      else Inr (False, st))"

subsection \<open>joinColors and extractColors\<close>

text \<open>
  Modelled from the spec: \<open>UnitigColors::reverse\<close> (ColorSet.tcc is not among the
  sources) returns a new container in which every id \<open>color * K + pos\<close> has become
  \<open>color * K + (K - 1 - pos)\<close>, for \<open>K = L - k + 1\<close> k-mers in a unitig of \<open>L\<close> bases. The
  spec does not say what it returns for \<open>K = 0\<close>.
\<close>

definition UnitigColors_reverse :: "size_t \<Rightarrow> UnitigColors \<Rightarrow> size_t \<Rightarrow> UnitigColors" where
  "UnitigColors_reverse k u L =
     (let K = L - k + 1 in
      if isUnoccupied u then u
      else fold (\<lambda>x acc. add_ck_id acc ((x div K) * K + (K - 1 - x mod K)))
                (color_kmer_ids u) (setOccupied UnitigColors_new))"

text \<open>
  The values \<open>*it\<close> of a loop from \<open>begin()\<close> to \<open>end()\<close> over a container, or the fault
  of a loop that does not end.
\<close>

definition iterated :: "UnitigColors \<Rightarrow> fault + size_t list" where
  "iterated u = (case iterate u of None \<Rightarrow> Inl NonTermination | Some ids \<Rightarrow> Inr ids)"

text \<open>
  The loop "insert colors layer by layer" of \<open>joinColors\<close>, over the remaining values
  of the iterator. Its state is the mapping under construction, \<open>prev_color_id\<close>,
  \<open>prev_km_dist\<close> and \<open>new_cs\<close>. The loop is written twice in the source, for the
  destination and for the source unitig; the second adds \<open>um_dest.size\<close> to the
  position, which is the parameter \<open>off\<close> here (0 in the first).
\<close>

fun join_loop ::
  "size_t \<Rightarrow> size_t \<Rightarrow> size_t \<Rightarrow> size_t list \<Rightarrow> UnitigMap \<times> size_t \<times> size_t \<times> UnitigColors \<Rightarrow>
   fault + (UnitigMap \<times> size_t \<times> size_t \<times> UnitigColors)" where
  "join_loop k km_sz off [] s = Inr s"
| "join_loop k km_sz off (x # xs) (new_um, prev_color_id, prev_km_dist, new_cs) =
     (case udiv x km_sz of
        Inl e \<Rightarrow> Inl e
      | Inr color_id \<Rightarrow>
          (let km_dist = x - color_id * km_sz in
           if color_id \<noteq> prev_color_id \<or> km_dist \<noteq> prev_km_dist + 1
           then join_loop k km_sz off xs
                  (new_um\<lparr>dist := km_dist + off, len := 1\<rparr>, color_id, km_dist,
                   UnitigColors_add k new_cs new_um color_id)
           else join_loop k km_sz off xs
                  (new_um\<lparr>len := len new_um + 1\<rparr>, color_id, km_dist, new_cs)))"

text \<open>
  One of the two halves of \<open>joinColors\<close>: the first value of the iterator starts a
  run, the loop groups the others, and the last run is added when the mapping is
  not the empty one the constructor made. It returns \<open>prev_color_id\<close>, \<open>prev_km_dist\<close>
  and \<open>new_cs\<close>.
\<close>

definition join_half ::
  "size_t \<Rightarrow> size_t \<Rightarrow> size_t \<Rightarrow> size_t list \<Rightarrow> UnitigMap \<Rightarrow> size_t \<times> size_t \<times> UnitigColors \<Rightarrow>
   fault + (size_t \<times> size_t \<times> UnitigColors)" where
  "join_half k km_sz off ids new_um s =
     (case (case ids of
              [] \<Rightarrow> Inr (new_um, s)
            | x # xs \<Rightarrow>
                (case udiv x km_sz of
                   Inl e \<Rightarrow> Inl e
                 | Inr prev_color_id \<Rightarrow>
                     (let prev_km_dist = x - prev_color_id * km_sz in
                      join_loop k km_sz off xs
                        (new_um\<lparr>dist := prev_km_dist + off, len := 1\<rparr>,
                         prev_color_id, prev_km_dist, snd (snd s))))) of
        Inl e \<Rightarrow> Inl e
      | Inr (um', prev_color_id, prev_km_dist, new_cs) \<Rightarrow>
          Inr (prev_color_id, prev_km_dist,
               if dist um' + len um' \<noteq> 0 then UnitigColors_add k new_cs um' prev_color_id
               else new_cs))"

text \<open>
  Inside \<open>joinColors\<close> the pointers \<open>color_set_dest\<close> and \<open>color_set_src\<close> point into the
  storage, or at the local variables \<open>csd_rev\<close> and \<open>css_rev\<close> once a reversed copy has
  been taken.
\<close>

datatype join_ptr = Stored cs_ptr | Csd_rev | Css_rev

definition joinColors ::
  "(Kmer \<Rightarrow> size_t \<Rightarrow> size_t) \<Rightarrow> ColoredCDBG \<Rightarrow> UnitigMap \<Rightarrow> UnitigMap \<Rightarrow> fault + (bool \<times> ColoredCDBG)" where
  "joinColors hash st um_dest um_src =
     (if \<not> isEmpty um_dest \<and> \<not> isEmpty um_src \<and> color_sets st \<noteq> None then
        (case getColorSet hash st um_dest of
           Inl e \<Rightarrow> Inl e
         | Inr pd \<Rightarrow>
        (case getColorSet hash st um_src of
           Inl e \<Rightarrow> Inl e
         | Inr ps \<Rightarrow>
        (case (pd, ps) of
           (Some p_dest, Some p_src) \<Rightarrow>
             (let um_dest_km_sz = size_um um_dest - getK st + 1;
                  um_src_km_sz = size_um um_src - getK st + 1;
                  new_um_dest = UnitigMap_new (pos_unitig um_dest) 0 0
                                  (size_um um_dest + size_um um_src)
                                  (isShort um_dest) (isAbundant um_dest) (strand um_dest);
                  color_set_dest = (if \<not> strand um_dest then Csd_rev else Stored p_dest)
              in
              case deref st p_dest of
                Inl e \<Rightarrow> Inl e
              | Inr d \<Rightarrow>
              (let csd = (if \<not> strand um_dest
                          then UnitigColors_reverse (getK st) d (size_um um_dest) else d)
               in
               case iterated csd of
                 Inl e \<Rightarrow> Inl e
               | Inr ids_dest \<Rightarrow>
               (case join_half (getK st) um_dest_km_sz 0 ids_dest new_um_dest
                       (0xffffffffffffffff, 0xffffffffffffffff, UnitigColors_new) of
                  Inl e \<Rightarrow> Inl e
                | Inr s1 \<Rightarrow>
                (let new_um_src = UnitigMap_new (pos_unitig um_src) 0 0
                                    (size_um um_dest + size_um um_src)
                                    (isShort um_src) (isAbundant um_src) (strand um_src)
                 in
                 case deref st p_src of
                   Inl e \<Rightarrow> Inl e
                 | Inr s \<Rightarrow>
                 (let css = (if \<not> strand um_src
                             then UnitigColors_reverse (getK st) s (size_um um_src) else s)
                  in
                  case iterated css of
                    Inl e \<Rightarrow> Inl e
                  | Inr ids_src \<Rightarrow>
                  (case join_half (getK st) um_src_km_sz (size_um um_dest) ids_src
                          new_um_src s1 of
                     Inl e \<Rightarrow> Inl e
                   | Inr (prev_color_id, prev_km_dist, new_cs) \<Rightarrow>
                       (case color_set_dest of
                          Stored p \<Rightarrow> map_sum id (\<lambda>st'. (True, st')) (assign st p new_cs)
                        | Csd_rev \<Rightarrow> Inr (True, st)
                        | Css_rev \<Rightarrow> Inr (True, st))))))))
         | _ \<Rightarrow> Inr (False, st))))
      else Inr (False, st))"

text \<open>
  The loop of \<open>extractColors\<close>. (The source declares the iterators \<open>it\<close> and \<open>it_end\<close>
  once before the \<open>for\<close> statement and once more in it; the outer pair is never
  used, and building it changes nothing.)
\<close>

fun extract_loop ::
  "size_t \<Rightarrow> size_t \<Rightarrow> size_t \<Rightarrow> size_t \<Rightarrow> size_t list \<Rightarrow> UnitigMap \<Rightarrow> UnitigColors \<Rightarrow>
   fault + UnitigColors" where
  "extract_loop k um_km_sz um_dist end_pos [] fake_um new_cs = Inr new_cs"
| "extract_loop k um_km_sz um_dist end_pos (x # xs) fake_um new_cs =
     (case udiv x um_km_sz of
        Inl e \<Rightarrow> Inl e
      | Inr color_id \<Rightarrow>
          (let km_dist = x - color_id * um_km_sz in
           if km_dist \<ge> um_dist \<and> km_dist < end_pos
           then (let fake_um' = fake_um\<lparr>dist := km_dist - um_dist\<rparr>
                 in extract_loop k um_km_sz um_dist end_pos xs fake_um'
                      (UnitigColors_add k new_cs fake_um' color_id))
           else extract_loop k um_km_sz um_dist end_pos xs fake_um new_cs))"

definition extractColors ::
  "(Kmer \<Rightarrow> size_t \<Rightarrow> size_t) \<Rightarrow> ColoredCDBG \<Rightarrow> UnitigMap \<Rightarrow> fault + UnitigColors" where
  "extractColors hash st um =
     (if \<not> isEmpty um \<and> color_sets st \<noteq> None then
        (case getColorSet hash st um of
           Inl e \<Rightarrow> Inl e
         | Inr None \<Rightarrow> Inr UnitigColors_new
         | Inr (Some p) \<Rightarrow>
             (case deref st p of
                Inl e \<Rightarrow> Inl e
              | Inr u \<Rightarrow>
                  (let end_pos = dist um + len um;
                       um_km_sz = size_um um - getK st + 1;
                       fake_um = UnitigMap_new 0 0 1 (len um) False False (strand um)
                   in case iterated u of
                        Inl e \<Rightarrow> Inl e
                      | Inr ids \<Rightarrow>
                          extract_loop (getK st) um_km_sz (dist um) end_pos ids fake_um
                            UnitigColors_new)))
      else Inr UnitigColors_new)"

text \<open>The ids a loop from \<open>begin()\<close> to \<open>end()\<close> yields at a place of the storage.\<close>

definition colors_at :: "ColoredCDBG \<Rightarrow> cs_ptr \<Rightarrow> size_t list option" where
  "colors_at st p = (case deref st p of Inl e \<Rightarrow> None | Inr u \<Rightarrow> iterate u)"

subsection \<open>initColorSets\<close>

text \<open>
  The inner loop \<open>for (i = 0; i < max_nb_hash; ++i)\<close>: it leaves with the first \<open>i\<close>
  whose slot \<open>h_v\<close> is unoccupied, or with \<open>i = max_nb_hash\<close>. \<open>h_v\<close> is read after the
  loop only when the loop has assigned it.
\<close>

function probe ::
  "(Kmer \<Rightarrow> size_t \<Rightarrow> size_t) \<Rightarrow> ColoredCDBG \<Rightarrow> Kmer \<Rightarrow> nat \<Rightarrow> nat \<Rightarrow> nat \<Rightarrow> fault + (nat \<times> nat)" where
  "probe hash st head max_nb_hash i h_v =
     (if i < max_nb_hash then
        (case seed_at st i of
           Inl e \<Rightarrow> Inl e
         | Inr seed \<Rightarrow>
             (case slot_index hash st head seed of
                Inl e \<Rightarrow> Inl e
              | Inr h \<Rightarrow>
                  (case deref st (Slot h) of
                     Inl e \<Rightarrow> Inl e
                   | Inr u \<Rightarrow> if isUnoccupied u then Inr (i, h)
                              else probe hash st head max_nb_hash (i + 1) h)))
      else Inr (i, h_v))"
  by pat_completeness auto
termination
  by (relation "measure (\<lambda>(hash, st, head, max_nb_hash, i, h_v). max_nb_hash - i)") auto

declare probe.simps [simp del]

text \<open>
  Modelled from the spec: \<open>KmerHashTable::insert\<close> (KmerHashTable.h is not among the
  sources) adds an entry for a key; an entry already there is kept.
\<close>

definition kmer_insert :: "(Kmer \<rightharpoonup> 'v) \<Rightarrow> Kmer \<Rightarrow> 'v \<Rightarrow> (Kmer \<rightharpoonup> 'v)" where
  "kmer_insert m km v = (if m km \<noteq> None then m else m(km \<mapsto> v))"

text \<open>The body of the loop over the unitigs.\<close>

definition init_unitig ::
  "(Kmer \<Rightarrow> size_t \<Rightarrow> size_t) \<Rightarrow> nat \<Rightarrow> ColoredCDBG \<Rightarrow> UnitigMap \<Rightarrow> fault + ColoredCDBG" where
  "init_unitig hash max_nb_hash st unitig =
     (case getHead st unitig of
        Inl e \<Rightarrow> Inl e
      | Inr head \<Rightarrow>
          (case probe hash st head max_nb_hash 0 0 of
             Inl e \<Rightarrow> Inl e
           | Inr (i, h_v) \<Rightarrow>
               (case setData st unitig (of_nat (if i = max_nb_hash then 0 else i + 1)) of
                  Inl e \<Rightarrow> Inl e
                | Inr st1 \<Rightarrow>
                    if i = max_nb_hash
                    then Inr (st1\<lparr>km_overflow :=
                                   kmer_insert (km_overflow st1) head UnitigColors_new\<rparr>)
                    else (case deref st1 (Slot h_v) of
                            Inl e \<Rightarrow> Inl e
                          | Inr u \<Rightarrow> assign st1 (Slot h_v) (setOccupied u)))))"

fun init_loop ::
  "(Kmer \<Rightarrow> size_t \<Rightarrow> size_t) \<Rightarrow> nat \<Rightarrow> UnitigMap list \<Rightarrow> ColoredCDBG \<Rightarrow> fault + ColoredCDBG" where
  "init_loop hash max_nb_hash [] st = Inr st"
| "init_loop hash max_nb_hash (unitig # rest) st =
     (case init_unitig hash max_nb_hash st unitig of
        Inl e \<Rightarrow> Inl e
      | Inr st' \<Rightarrow> init_loop hash max_nb_hash rest st')"

definition initColorSets ::
  "(Kmer \<Rightarrow> size_t \<Rightarrow> size_t) \<Rightarrow> nat \<Rightarrow> ColoredCDBG \<Rightarrow> fault + ColoredCDBG" where
  "initColorSets hash max_nb_hash st =
     (let n = size_graph st;
          st0 = st\<lparr>nb_color_sets := n, color_sets := Some (replicate n UnitigColors_new)\<rparr>
      in init_loop hash max_nb_hash (unitigs st0) st0)"

text \<open>
  The slot the lookup of \<open>getColorSet\<close> computes for a unitig from its byte \<open>a\<close> and its
  head k-mer: \<open>hash(head, seeds[a - 1]) % nb_color_sets\<close>.
\<close>

definition slot_of :: "(Kmer \<Rightarrow> size_t \<Rightarrow> size_t) \<Rightarrow> ColoredCDBG \<Rightarrow> Kmer \<Rightarrow> uint8_t \<Rightarrow> nat" where
  "slot_of hash st head a = unat (hash head (seeds st (unat a - 1))) mod nb_color_sets st"

subsection \<open>What initColorSets establishes\<close>

text \<open>
  A mapping is valid when it is not empty and its position lies in the container
  it names; two mappings name the same unitig when they agree on container and
  position.
\<close>

definition valid_um :: "'a CompactedDBG_scheme \<Rightarrow> UnitigMap \<Rightarrow> bool" where
  "valid_um g um =
     (\<not> isEmpty um \<and>
      (if isShort um then pos_unitig um < length (v_kmers g)
       else if isAbundant um then pos_unitig um < length (h_kmers_ccov g)
       else pos_unitig um < length (v_unitigs g)))"

definition addr :: "UnitigMap \<Rightarrow> nat \<times> nat" where
  "addr um = (if isShort um then 1 else if isAbundant um then 2 else 0, pos_unitig um)"

text \<open>
  The invariant of the loop of \<open>initColorSets\<close> over the unitigs \<open>seen\<close> so far: each
  of them with a nonzero byte has its slot occupied, two of them never share a slot,
  and the overflow table holds exactly the heads of those whose byte is 0.
\<close>

definition init_inv :: "(Kmer \<Rightarrow> size_t \<Rightarrow> size_t) \<Rightarrow> UnitigMap list \<Rightarrow> ColoredCDBG \<Rightarrow> bool" where
  "init_inv hash seen st =
     (\<exists>arr. color_sets st = Some arr \<and> length arr = nb_color_sets st \<and>
        (\<forall>u \<in> set seen. \<exists>head a. getHead st u = Inr head \<and> getData st u = Inr a \<and>
            (a \<noteq> 0 \<longrightarrow> slot_of hash st head a < length arr \<and>
                      isOccupied (arr ! slot_of hash st head a))) \<and>
        (\<forall>u \<in> set seen. \<forall>v \<in> set seen. \<forall>hu au hv av.
            addr u \<noteq> addr v \<and> getHead st u = Inr hu \<and> getData st u = Inr au \<and>
            getHead st v = Inr hv \<and> getData st v = Inr av \<and> au \<noteq> 0 \<and> av \<noteq> 0 \<longrightarrow>
            slot_of hash st hu au \<noteq> slot_of hash st hv av) \<and>
        dom (km_overflow st) =
          {head. \<exists>u \<in> set seen. getHead st u = Inr head \<and> getData st u = Inr 0})"

subsection \<open>mapColors\<close>

text \<open>
  The two options \<open>mapColors\<close> reads from \<open>CDBG_Build_opt\<close>.
\<close>

record CDBG_Build_opt =
  nb_threads :: nat
  read_chunksize :: nat

text \<open>
  Modelled from the spec: \<open>FastqFile\<close> (fastq.hpp is not among the sources). The reader
  is the number of the file being read and the sequences still to come, file by
  file; \<open>read_next(s, file_id)\<close> gives the next sequence and the index of the file it
  comes from, moving on to the next file at the end of one, and fails after the last
  file without touching \<open>file_id\<close>.
\<close>

type_synonym FastqFile = "nat \<times> string list list"

fun read_next :: "FastqFile \<Rightarrow> ((string \<times> nat) \<times> FastqFile) option" where
  "read_next (n, []) = None"
| "read_next (n, [] # fs) = read_next (Suc n, fs)"
| "read_next (n, (s # ss) # fs) = Some ((s, n), (n, ss # fs))"

text \<open>
  The inner \<open>while (reads_now < opt.read_chunksize)\<close>, counted down: it fills \<open>readv\<close>
  and overwrites the one variable \<open>file_id\<close> at each sequence read. The result is
  \<open>readv\<close>, \<open>file_id\<close>, the reader and \<open>done\<close>.
\<close>

fun read_chunk ::
  "nat \<Rightarrow> FastqFile \<Rightarrow> size_t \<Rightarrow> string list \<Rightarrow> string list \<times> size_t \<times> FastqFile \<times> bool" where
  "read_chunk 0 FQ file_id readv = (readv, file_id, FQ, False)"
| "read_chunk (Suc n) FQ file_id readv =
     (case read_next FQ of
        None \<Rightarrow> (readv, file_id, FQ, True)
      | Some ((s, f), FQ') \<Rightarrow> read_chunk n FQ' (of_nat f) (readv @ [s]))"

text \<open>
  \<open>worker_function(a, b)\<close> on the sequences from \<open>a\<close> to \<open>b\<close>. The k-mer iterator,
  \<open>find\<close> and \<open>lcp\<close> are not among the sources: \<open>kmer_maps x\<close> stands for the non-empty
  mappings the loop over the k-mers of \<open>x\<close> arrives at, in order. The lambda captures
  \<open>file_id\<close> by reference, so each call of \<open>setColor\<close> reads the variable as the reader
  left it; locking and unlocking the byte changes nothing in a sequential run.
\<close>

fun color_maps ::
  "(Kmer \<Rightarrow> size_t \<Rightarrow> size_t) \<Rightarrow> size_t \<Rightarrow> UnitigMap list \<Rightarrow> ColoredCDBG \<Rightarrow> fault + ColoredCDBG" where
  "color_maps hash file_id [] st = Inr st"
| "color_maps hash file_id (um # ums) st =
     (case setColor hash st um file_id of
        Inl e \<Rightarrow> Inl e
      | Inr (_, st') \<Rightarrow> color_maps hash file_id ums st')"

fun worker_function ::
  "(Kmer \<Rightarrow> size_t \<Rightarrow> size_t) \<Rightarrow> (string \<Rightarrow> UnitigMap list) \<Rightarrow> size_t \<Rightarrow> string list \<Rightarrow>
   ColoredCDBG \<Rightarrow> fault + ColoredCDBG" where
  "worker_function hash kmer_maps file_id [] st = Inr st"
| "worker_function hash kmer_maps file_id (x # xs) st =
     (case color_maps hash file_id (kmer_maps x) st of
        Inl e \<Rightarrow> Inl e
      | Inr st' \<Rightarrow> worker_function hash kmer_maps file_id xs st')"

text \<open>
  The threads: thread \<open>i\<close> takes the next \<open>batch_size + (i < leftover ? 1 : 0)\<close>
  sequences of \<open>readv\<close>. The threads touch the storage under the lock of the unitig;
  the model runs them one after the other, in the order they are started.
\<close>

fun run_workers ::
  "(Kmer \<Rightarrow> size_t \<Rightarrow> size_t) \<Rightarrow> (string \<Rightarrow> UnitigMap list) \<Rightarrow> size_t \<Rightarrow> nat \<Rightarrow> nat \<Rightarrow>
   nat \<Rightarrow> nat \<Rightarrow> string list \<Rightarrow> ColoredCDBG \<Rightarrow> fault + ColoredCDBG" where
  "run_workers hash kmer_maps file_id batch_size leftover i 0 rit st = Inr st"
| "run_workers hash kmer_maps file_id batch_size leftover i (Suc n) rit st =
     (let jump = batch_size + (if i < leftover then 1 else 0) in
      case worker_function hash kmer_maps file_id (take jump rit) st of
        Inl e \<Rightarrow> Inl e
      | Inr st' \<Rightarrow>
          run_workers hash kmer_maps file_id batch_size leftover (Suc i) n (drop jump rit) st')"

definition run_chunk ::
  "(Kmer \<Rightarrow> size_t \<Rightarrow> size_t) \<Rightarrow> (string \<Rightarrow> UnitigMap list) \<Rightarrow> CDBG_Build_opt \<Rightarrow> size_t \<Rightarrow>
   string list \<Rightarrow> ColoredCDBG \<Rightarrow> fault + ColoredCDBG" where
  "run_chunk hash kmer_maps opt file_id readv st =
     (if nb_threads opt = 0 then Inl DivisionByZero
      else run_workers hash kmer_maps file_id
             (length readv div nb_threads opt) (length readv mod nb_threads opt)
             0 (nb_threads opt) readv st)"

text \<open>
  The outer \<open>while (!done)\<close>. With a chunk size of 0 no round reads anything and the
  loop never ends, so it is a partial function.
\<close>

partial_function (option) mapColors_loop ::
  "(Kmer \<Rightarrow> size_t \<Rightarrow> size_t) \<Rightarrow> (string \<Rightarrow> UnitigMap list) \<Rightarrow> CDBG_Build_opt \<Rightarrow> FastqFile \<Rightarrow>
   size_t \<Rightarrow> ColoredCDBG \<Rightarrow> (fault + ColoredCDBG) option" where
  "mapColors_loop hash kmer_maps opt FQ file_id st =
     (let r = read_chunk (read_chunksize opt) FQ file_id [] in
      case run_chunk hash kmer_maps opt (fst (snd r)) (fst r) st of
        Inl e \<Rightarrow> Some (Inl e)
      | Inr st' \<Rightarrow>
          if snd (snd (snd r)) then Some (Inr st')
          else mapColors_loop hash kmer_maps opt (fst (snd (snd r))) (fst (snd r)) st')"

declare mapColors_loop.simps [code]

definition mapColors ::
  "(Kmer \<Rightarrow> size_t \<Rightarrow> size_t) \<Rightarrow> (string \<Rightarrow> UnitigMap list) \<Rightarrow> CDBG_Build_opt \<Rightarrow>
   string list list \<Rightarrow> ColoredCDBG \<Rightarrow> (fault + ColoredCDBG) option" where
  "mapColors hash kmer_maps opt files st = mapColors_loop hash kmer_maps opt (0, files) 0 st"

section \<open>A small graph\<close>

text \<open>
  The graph used to run the functions on concrete inputs: k = 5 and two unitigs,
  ACGTACGT (4 k-mers) and CCGTTAA (3 k-mers). The hash of a k-mer adds its length to
  the seed, and seed \<open>i\<close> is \<open>i\<close>, so that both heads meet in slot 1 under the first
  seed and part under the second.
\<close>

definition ex_hash :: "Kmer \<Rightarrow> size_t \<Rightarrow> size_t" where
  "ex_hash km seed = seed + of_nat (length km)"

definition ex_cdbg :: ColoredCDBG where
  "ex_cdbg = \<lparr>getK = 5, v_unitigs = [(''ACGTACGT'', 0), (''CCGTTAA'', 0)], v_kmers = [],
              h_kmers_ccov = [], color_sets = None, nb_color_sets = 0,
              km_overflow = Map.empty, seeds = of_nat\<rparr>"

definition ex_um_dest :: UnitigMap where
  "ex_um_dest = UnitigMap_new 0 0 4 8 False False True"

definition ex_um_src :: UnitigMap where
  "ex_um_src = UnitigMap_new 1 0 3 7 False False True"

text \<open>
  The storage after \<open>initColorSets\<close> with two seeds tried (both unitigs get a slot) and
  with one seed tried (the second unitig goes to the overflow table), and a storage
  whose array was never allocated.
\<close>

definition ex_colored :: ColoredCDBG where
  "ex_colored = ex_cdbg\<lparr>v_unitigs := [(''ACGTACGT'', 1), (''CCGTTAA'', 2)],
       color_sets := Some [\<lparr>setBits = 1, bitmap = {||}\<rparr>, \<lparr>setBits = 1, bitmap = {||}\<rparr>],
       nb_color_sets := 2\<rparr>"

definition ex_overflowed :: ColoredCDBG where
  "ex_overflowed = ex_cdbg\<lparr>v_unitigs := [(''ACGTACGT'', 1), (''CCGTTAA'', 0)],
       color_sets := Some [UnitigColors_new, \<lparr>setBits = 1, bitmap = {||}\<rparr>],
       nb_color_sets := 2,
       km_overflow := [''CCGTT'' \<mapsto> UnitigColors_new]\<rparr>"

definition ex_unallocated :: ColoredCDBG where
  "ex_unallocated = ex_cdbg\<lparr>km_overflow := [''ACGTA'' \<mapsto> UnitigColors_new]\<rparr>"

text \<open>
  The storage of the small graph once color 0 is on the four k-mers of the first
  unitig and color 1 on the three k-mers of the second, and the storage of scenario
  1 of the specification (color 0 on positions 0 to 3 and color 1 on positions 2 and
  3 of the first unitig). The first unitig is also mapped on its reverse strand, and
  on the part \<open>dist = 1\<close>, \<open>len = 2\<close> that scenario 3 extracts.
\<close>

definition ex_two_colors :: ColoredCDBG where
  "ex_two_colors = ex_colored\<lparr>color_sets :=
       Some [\<lparr>setBits = 225, bitmap = {||}\<rparr>, \<lparr>setBits = 61, bitmap = {||}\<rparr>]\<rparr>"

definition ex_scenario1 :: ColoredCDBG where
  "ex_scenario1 = ex_colored\<lparr>color_sets :=
       Some [\<lparr>setBits = 1, bitmap = {||}\<rparr>, \<lparr>setBits = 829, bitmap = {||}\<rparr>]\<rparr>"

definition ex_um_dest_rev :: UnitigMap where
  "ex_um_dest_rev = UnitigMap_new 0 0 4 8 False False False"

definition ex_um_part :: UnitigMap where
  "ex_um_part = UnitigMap_new 0 1 2 8 False False True"

text \<open>
  Two input files of one sequence each, the two unitigs themselves: every k-mer of
  the first sequence maps to the first unitig and every k-mer of the second to the
  second.
\<close>

definition ex_files :: "string list list" where
  "ex_files = [[''ACGTACGT''], [''CCGTTAA'']]"

definition ex_kmer_maps :: "string \<Rightarrow> UnitigMap list" where
  "ex_kmer_maps x =
     (if x = ''ACGTACGT'' then [ex_um_dest] else if x = ''CCGTTAA'' then [ex_um_src] else [])"

text \<open>
  The same two colorings on a graph with k = 1, where a unitig has as many k-mers as
  bases: unitigs ACGT (4 k-mers) and CCG (3 k-mers).
\<close>

definition ex_two_colors_k1 :: ColoredCDBG where
  "ex_two_colors_k1 = ex_two_colors\<lparr>getK := 1, v_unitigs := [(''ACGT'', 1), (''CCG'', 2)]\<rparr>"

section \<open>Properties of ColorKmer_ID\<close>

text \<open>
  C9. For a unitig of at least one k-mer, \<open>getColorID\<close> returns \<open>ck_id / K\<close> and
  \<open>getKmerPosition\<close> returns \<open>ck_id % K\<close> (unsigned 64-bit division), writing
  nothing, for every ColorKmer_ID other than the all-ones sentinel; on the sentinel
  both write one error line and return the sentinel unchanged.
\<close>

theorem ColorKmer_ID_accessors:
  "(ck \<noteq> invalid_ck_id \<and> K \<noteq> 0 \<longrightarrow>
      getColorID ck K = Inr ([], ck div K) \<and>
      unat (ck div K) = unat ck div unat K \<and>
      getKmerPosition ck K = Inr ([], ck mod K) \<and>
      unat (ck mod K) = unat ck mod unat K) \<and>
   (\<exists>l1 l2. getColorID invalid_ck_id K = Inr ([l1], invalid_ck_id) \<and>
            getKmerPosition invalid_ck_id K = Inr ([l2], invalid_ck_id))"
  by (simp add: getColorID_def getKmerPosition_def udiv_def umod_def invalid_ck_id_def
                unat_div unat_mod)

theorem ColorKmer_ID_accessors_witness:
  "(7::size_t) \<noteq> invalid_ck_id \<and> (4::size_t) \<noteq> 0 \<and>
   getColorID 7 4 = Inr ([], 1) \<and> getKmerPosition 7 4 = Inr ([], 3)"
  using ColorKmer_ID_accessors [of 7 4]
  by (simp add: invalid_ck_id_def)

section \<open>Iterating a UnitigColors\<close>

subsection \<open>The flag and small word arithmetic\<close>

lemma flag_cases:
  fixes w :: size_t
  shows "w AND flagMask = ptrCompressedBitmap \<or> w AND flagMask = localBitVectorColor \<or>
         w AND flagMask = localSingleColor \<or> w AND flagMask = unoccupied"
proof -
  have "w AND 3 \<le> 3" by (rule word_and_le1)
  then have "unat (w AND 3) \<le> 3" by (simp add: word_le_nat_alt)
  then have "unat (w AND 3) = 0 \<or> unat (w AND 3) = 1 \<or> unat (w AND 3) = 2 \<or> unat (w AND 3) = 3"
    by arith
  then have "w AND 3 = 0 \<or> w AND 3 = 1 \<or> w AND 3 = 2 \<or> w AND 3 = 3"
    by (simp add: word_unat_eq_iff)
  then show ?thesis
    by (simp add: flagMask_def ptrCompressedBitmap_def localBitVectorColor_def
                  localSingleColor_def unoccupied_def)
qed

lemma test_bit_iff:
  fixes bits :: size_t
  shows "(drop_bit n bits AND 0x1 \<noteq> 0) = bit bits n"
  by (simp add: bit_iff_odd_drop_bit and_one_eq odd_iff_mod_2_eq_one)

lemma unat_plus_small:
  fixes i :: size_t
  assumes "unat i < 62"
  shows "unat (i + 1) = unat i + 1" "unat (i + 2) = unat i + 2"
  using assms by (simp_all add: unat_word_ariths)

lemma bitvec_scan_spec:
  "unat i \<le> 62 \<Longrightarrow>
   unat i \<le> unat (fst (bitvec_scan bits i ck)) \<and>
   unat (fst (bitvec_scan bits i ck)) \<le> 62 \<and>
   filter (\<lambda>j. bit bits (j + 2)) [unat i..<62] =
     filter (\<lambda>j. bit bits (j + 2)) [unat (fst (bitvec_scan bits i ck))..<62] \<and>
   (unat (fst (bitvec_scan bits i ck)) < 62 \<longrightarrow>
      bit bits (unat (fst (bitvec_scan bits i ck)) + 2) \<and>
      snd (bitvec_scan bits i ck) = fst (bitvec_scan bits i ck))"
proof (induction bits i ck rule: bitvec_scan.induct)
  case (1 bits i ck)
  show ?case
  proof (cases "i < maxBitVectorIDs")
    case False
    with "1.prems" have "unat i = 62"
      by (simp add: maxBitVectorIDs_def word_less_nat_alt)
    with False show ?thesis
      by (subst (1 2 3 4 5 6) bitvec_scan.simps) simp
  next
    case True
    then have lt: "unat i < 62"
      by (simp add: maxBitVectorIDs_def word_less_nat_alt)
    show ?thesis
    proof (cases "bit bits (unat i + 2)")
      case True
      with \<open>i < maxBitVectorIDs\<close> lt show ?thesis
        by (subst (1 2 3 4 5 6) bitvec_scan.simps)
           (simp add: test_bit_iff unat_plus_small)
    next
      case nb: False
      have step: "bitvec_scan bits i ck = bitvec_scan bits (i + 1) ck"
        using True nb lt
        by (subst bitvec_scan.simps) (simp add: test_bit_iff unat_plus_small)
      have cond: "drop_bit (unat (i + 2)) bits AND 0x1 = 0"
        using nb lt test_bit_iff [of "unat i + 2" bits] by (simp add: unat_plus_small)
      have "unat (i + 1) \<le> 62" using lt by (simp add: unat_plus_small)
      from "1.IH" [OF True _ this] cond
      have ih: "unat (i + 1) \<le> unat (fst (bitvec_scan bits (i + 1) ck)) \<and>
         unat (fst (bitvec_scan bits (i + 1) ck)) \<le> 62 \<and>
         filter (\<lambda>j. bit bits (j + 2)) [unat (i + 1)..<62] =
           filter (\<lambda>j. bit bits (j + 2)) [unat (fst (bitvec_scan bits (i + 1) ck))..<62] \<and>
         (unat (fst (bitvec_scan bits (i + 1) ck)) < 62 \<longrightarrow>
            bit bits (unat (fst (bitvec_scan bits (i + 1) ck)) + 2) \<and>
            snd (bitvec_scan bits (i + 1) ck) = fst (bitvec_scan bits (i + 1) ck))"
        by simp
      have "filter (\<lambda>j. bit bits (j + 2)) [unat i..<62] =
            filter (\<lambda>j. bit bits (j + 2)) [unat (i + 1)..<62]"
        using lt nb by (simp add: upt_conv_Cons unat_plus_small)
      with ih lt show ?thesis
        unfolding step by (simp add: unat_plus_small)
    qed
  qed
qed

lemma end_it_bitvec:
  assumes "setBits u AND flagMask = localBitVectorColor"
  shows "end_it u = \<lparr>cs = u, flag = localBitVectorColor, it_setBits = 62, cs_sz = 62,
                      ck_id = 0, it_roar = 0\<rparr>"
  using assms
  by (simp add: end_it_def const_iterator_init_def Let_def localBitVectorColor_def
                ptrCompressedBitmap_def localSingleColor_def maxBitVectorIDs_def)

lemma iter_loop_bitvec:
  assumes fl: "setBits u AND flagMask = localBitVectorColor"
  shows "cs it = u \<Longrightarrow> flag it = localBitVectorColor \<Longrightarrow> cs_sz it = 62 \<Longrightarrow>
         unat (it_setBits it) \<le> 62 \<Longrightarrow>
         (unat (it_setBits it) < 62 \<longrightarrow>
            bit (setBits u) (unat (it_setBits it) + 2) \<and> ck_id it = it_setBits it) \<Longrightarrow>
         iter_loop it (end_it u) acc =
           Some (acc @ map of_nat (filter (\<lambda>j. bit (setBits u) (j + 2))
                                      [unat (it_setBits it)..<62]))"
proof (induction "62 - unat (it_setBits it)" arbitrary: it acc rule: less_induct)
  case less
  let ?i = "it_setBits it"
  let ?P = "\<lambda>j. bit (setBits u) (j + 2)"
  show ?case
  proof (cases "unat ?i < 62")
    case False
    with less.prems have "unat ?i = 62" by simp
    then have i62: "?i = 62" by (simp add: word_unat_eq_iff)
    have "it_eq it (end_it u)"
      using less.prems i62
      by (simp add: it_eq_def end_it_bitvec [OF fl] localBitVectorColor_def
                    ptrCompressedBitmap_def)
    then show ?thesis
      using i62 by (subst iter_loop.simps) simp
  next
    case True
    then have ne: "?i \<noteq> 62" by auto
    have neq: "\<not> it_eq it (end_it u)"
      using less.prems ne
      by (simp add: it_eq_def end_it_bitvec [OF fl] localBitVectorColor_def
                    ptrCompressedBitmap_def)
    define r where "r = bitvec_scan (setBits u) (?i + 1) (ck_id it)"
    have inc: "incr it = it\<lparr>it_setBits := fst r, ck_id := snd r\<rparr>"
      using less.prems ne
      by (simp add: incr_def Let_def r_def localBitVectorColor_def ptrCompressedBitmap_def)
    have le: "unat (?i + 1) \<le> 62" using True by (simp add: unat_plus_small)
    note sp = bitvec_scan_spec [OF le, of "setBits u" "ck_id it", folded r_def]
    have "unat ?i + 1 \<le> unat (fst r)" "unat (fst r) \<le> 62"
      using sp True by (simp_all add: unat_plus_small)
    then have m: "62 - unat (it_setBits (incr it)) < 62 - unat ?i"
      by (simp add: inc)
    have ih: "iter_loop (incr it) (end_it u) (acc @ [ck_id it]) =
              Some ((acc @ [ck_id it]) @ map of_nat (filter ?P [unat (fst r)..<62]))"
      using less.hyps [OF m, of "acc @ [ck_id it]"] less.prems sp
      by (simp add: inc)
    have hd: "ck_id it = of_nat (unat ?i)" using less.prems True by simp
    have "filter ?P [unat ?i..<62] = unat ?i # filter ?P [unat (?i + 1)..<62]"
      using True less.prems by (simp add: upt_conv_Cons unat_plus_small)
    also have "filter ?P [unat (?i + 1)..<62] = filter ?P [unat (fst r)..<62]"
      using sp by simp
    finally have fil: "filter ?P [unat ?i..<62] = unat ?i # filter ?P [unat (fst r)..<62]" .
    have "iter_loop it (end_it u) acc = iter_loop (incr it) (end_it u) (acc @ [ck_id it])"
      using neq by (subst iter_loop.simps) simp
    then show ?thesis
      unfolding ih fil using hd by simp
  qed
qed

lemma begin_it_bitvec:
  assumes fl: "setBits u AND flagMask = localBitVectorColor"
  shows "iter_loop (begin_it u) (end_it u) [] =
           Some (map of_nat (filter (\<lambda>j. bit (setBits u) (j + 2)) [0..<62]))"
proof -
  define r where "r = bitvec_scan (setBits u) 0 0"
  have wrap: "(18446744073709551616::size_t) = 0" by simp
  have b: "begin_it u = \<lparr>cs = u, flag = localBitVectorColor, it_setBits = fst r, cs_sz = 62,
                          ck_id = snd r, it_roar = 0\<rparr>"
    using fl
    by (simp add: begin_it_def const_iterator_init_def incr_def Let_def r_def
                  localBitVectorColor_def ptrCompressedBitmap_def localSingleColor_def
                  maxBitVectorIDs_def wrap)
  have le: "unat (0::size_t) \<le> 62" by simp
  note sp = bitvec_scan_spec [OF le, of "setBits u" 0, folded r_def]
  have "iter_loop (begin_it u) (end_it u) [] =
          Some ([] @ map of_nat (filter (\<lambda>j. bit (setBits u) (j + 2))
                                     [unat (it_setBits (begin_it u))..<62]))"
    using sp by (intro iter_loop_bitvec [OF fl]) (simp_all add: b)
  then show ?thesis using sp by (simp add: b)
qed

lemma fcard_uint32_le:
  fixes b :: "uint32_t fset"
  shows "fcard b \<le> 2 ^ 32"
proof -
  have "card (fset b) \<le> card (UNIV :: uint32_t set)"
    by (rule card_mono) simp_all
  then show ?thesis by (simp add: fcard.rep_eq card_word)
qed

lemma length_sorted_list_of_fset:
  "length (sorted_list_of_fset b) = fcard b"
  by (simp add: sorted_list_of_fset.rep_eq fcard.rep_eq)

lemma unat_of_nat_small:
  "n \<le> 2 ^ 32 \<Longrightarrow> unat (of_nat n :: size_t) = n"
  by (simp add: unat_of_nat)

lemma end_it_bitmap:
  assumes "setBits u AND flagMask = ptrCompressedBitmap"
  shows "end_it u = \<lparr>cs = u, flag = ptrCompressedBitmap, it_setBits = of_nat (fcard (bitmap u)),
                      cs_sz = of_nat (fcard (bitmap u)), ck_id = 0,
                      it_roar = fcard (bitmap u)\<rparr>"
  using assms
  by (simp add: end_it_def const_iterator_init_def Let_def size_colors_def roar_end_def)

lemma iter_loop_bitmap:
  assumes fl: "setBits u AND flagMask = ptrCompressedBitmap"
  shows "cs it = u \<Longrightarrow> flag it = ptrCompressedBitmap \<Longrightarrow>
         cs_sz it = of_nat (fcard (bitmap u)) \<Longrightarrow>
         it_roar it \<le> fcard (bitmap u) \<Longrightarrow> it_setBits it = of_nat (it_roar it) \<Longrightarrow>
         (it_roar it < fcard (bitmap u) \<longrightarrow>
            ck_id it = ucast (sorted_list_of_fset (bitmap u) ! it_roar it)) \<Longrightarrow>
         iter_loop it (end_it u) acc =
           Some (acc @ map ucast (drop (it_roar it) (sorted_list_of_fset (bitmap u))))"
proof (induction "fcard (bitmap u) - it_roar it" arbitrary: it acc rule: less_induct)
  case less
  let ?n = "fcard (bitmap u)"
  let ?r = "it_roar it"
  let ?L = "sorted_list_of_fset (bitmap u)"
  have n32: "?n \<le> 2 ^ 32" by (rule fcard_uint32_le)
  show ?case
  proof (cases "?r < ?n")
    case False
    with less.prems have rn: "?r = ?n" by simp
    have "it_eq it (end_it u)"
      using less.prems rn by (simp add: it_eq_def end_it_bitmap [OF fl])
    then show ?thesis
      using rn by (subst iter_loop.simps) (simp add: length_sorted_list_of_fset)
  next
    case True
    have neq: "\<not> it_eq it (end_it u)"
      using less.prems True by (simp add: it_eq_def end_it_bitmap [OF fl])
    have ur: "unat (of_nat ?r :: size_t) = ?r" "unat (of_nat ?n :: size_t) = ?n"
      using True n32 by (simp_all add: unat_of_nat_small)
    have ur3: "unat (1 + of_nat ?r :: size_t) = Suc ?r"
      using True n32 unat_of_nat_small [of "Suc ?r"] by simp
    have ne1: "(of_nat ?r :: size_t) \<noteq> of_nat ?n"
    proof
      assume "(of_nat ?r :: size_t) = of_nat ?n"
      then have "unat (of_nat ?r :: size_t) = unat (of_nat ?n :: size_t)" by simp
      with ur True show False by simp
    qed
    have ne2: "(1 + of_nat ?r :: size_t) \<noteq> 0"
    proof
      assume "(1 + of_nat ?r :: size_t) = 0"
      then have "unat (1 + of_nat ?r :: size_t) = unat (0 :: size_t)" by simp
      with ur3 show False by simp
    qed
    have inc: "incr it = it\<lparr>it_setBits := of_nat (Suc ?r), it_roar := Suc ?r,
                 ck_id := (if Suc ?r \<noteq> ?n then ucast (?L ! Suc ?r) else ck_id it)\<rparr>"
      using less.prems True ne1 ne2
      by (simp add: incr_def Let_def roar_next_def roar_end_def roar_deref_def add.commute)
    have m: "?n - it_roar (incr it) < ?n - ?r"
      using True by (simp add: inc)
    have ih: "iter_loop (incr it) (end_it u) (acc @ [ck_id it]) =
              Some ((acc @ [ck_id it]) @ map ucast (drop (Suc ?r) ?L))"
      using less.hyps [OF m, of "acc @ [ck_id it]"] less.prems True
      by (simp add: inc)
    have dr: "drop ?r ?L = ?L ! ?r # drop (Suc ?r) ?L"
      using True by (simp add: Cons_nth_drop_Suc length_sorted_list_of_fset)
    have hd: "ck_id it = ucast (?L ! ?r)" using less.prems True by simp
    have "iter_loop it (end_it u) acc = iter_loop (incr it) (end_it u) (acc @ [ck_id it])"
      using neq by (subst iter_loop.simps) simp
    then show ?thesis
      unfolding ih dr using hd by simp
  qed
qed

lemma begin_it_bitmap:
  assumes fl: "setBits u AND flagMask = ptrCompressedBitmap"
  shows "iter_loop (begin_it u) (end_it u) [] =
           Some (map ucast (sorted_list_of_fset (bitmap u)))"
proof -
  let ?n = "fcard (bitmap u)"
  have n32: "?n \<le> 2 ^ 32" by (rule fcard_uint32_le)
  have wrap: "(18446744073709551616::size_t) = 0" by simp
  have un: "unat (of_nat ?n :: size_t) = ?n" using n32 by (simp add: unat_of_nat_small)
  have ne: "(0xffffffffffffffff :: size_t) \<noteq> of_nat ?n"
  proof
    assume "(0xffffffffffffffff :: size_t) = of_nat ?n"
    then have "unat (0xffffffffffffffff :: size_t) = unat (of_nat ?n :: size_t)" by simp
    with un n32 show False by simp
  qed
  have b: "begin_it u = \<lparr>cs = u, flag = ptrCompressedBitmap, it_setBits = 0,
                          cs_sz = of_nat ?n,
                          ck_id = (if 0 \<noteq> ?n then ucast (sorted_list_of_fset (bitmap u) ! 0) else 0),
                          it_roar = 0\<rparr>"
    using fl ne
    by (simp add: begin_it_def const_iterator_init_def incr_def Let_def size_colors_def
                  roar_end_def roar_deref_def wrap)
  have "iter_loop (begin_it u) (end_it u) [] =
          Some ([] @ map ucast (drop (it_roar (begin_it u)) (sorted_list_of_fset (bitmap u))))"
    by (intro iter_loop_bitmap [OF fl]) (simp_all add: b fcard_fempty)
  then show ?thesis by (simp add: b)
qed

lemma iter_loop_single:
  assumes fl: "setBits u AND flagMask = localSingleColor"
  shows "iter_loop (begin_it u) (end_it u) [] = Some [drop_bit 2 (setBits u)]"
proof -
  have wrap: "(18446744073709551616::size_t) = 0" by simp
  have e: "end_it u = \<lparr>cs = u, flag = localSingleColor, it_setBits = 1, cs_sz = 1,
                         ck_id = 0, it_roar = 0\<rparr>"
    using fl
    by (simp add: end_it_def const_iterator_init_def Let_def localSingleColor_def
                  ptrCompressedBitmap_def)
  have b: "begin_it u = \<lparr>cs = u, flag = localSingleColor, it_setBits = 0, cs_sz = 1,
                           ck_id = drop_bit 2 (setBits u), it_roar = 0\<rparr>"
    using fl
    by (simp add: begin_it_def const_iterator_init_def incr_def Let_def localSingleColor_def
                  ptrCompressedBitmap_def localBitVectorColor_def wrap)
  have i: "incr (begin_it u) = \<lparr>cs = u, flag = localSingleColor, it_setBits = 1, cs_sz = 1,
                           ck_id = drop_bit 2 (setBits u), it_roar = 0\<rparr>"
    by (simp add: b incr_def Let_def localSingleColor_def
                  ptrCompressedBitmap_def localBitVectorColor_def)
  have n: "\<not> it_eq (begin_it u) (end_it u)"
    by (simp add: b e it_eq_def localSingleColor_def ptrCompressedBitmap_def)
  have y: "it_eq (incr (begin_it u)) (end_it u)"
    by (simp add: i e it_eq_def localSingleColor_def ptrCompressedBitmap_def)
  have "iter_loop (begin_it u) (end_it u) [] =
        iter_loop (incr (begin_it u)) (end_it u) [ck_id (begin_it u)]"
    using n by (subst iter_loop.simps) simp
  also have "\<dots> = Some [ck_id (begin_it u)]"
    using y by (subst iter_loop.simps) simp
  finally show ?thesis by (simp add: b)
qed

lemma end_it_unoccupied:
  assumes "setBits u AND flagMask = unoccupied"
  shows "end_it u = \<lparr>cs = u, flag = unoccupied, it_setBits = 62, cs_sz = 62,
                      ck_id = 0, it_roar = 0\<rparr>"
  using assms
  by (simp add: end_it_def const_iterator_init_def Let_def unoccupied_def
                ptrCompressedBitmap_def localSingleColor_def maxBitVectorIDs_def)

lemma begin_it_unoccupied:
  assumes "setBits u AND flagMask = unoccupied"
  shows "begin_it u = \<lparr>cs = u, flag = unoccupied, it_setBits = 0, cs_sz = 62,
                        ck_id = 0, it_roar = 0\<rparr>"
proof -
  have wrap: "(18446744073709551616::size_t) = 0" by simp
  show ?thesis
    using assms
    by (simp add: begin_it_def const_iterator_init_def incr_def Let_def unoccupied_def
                  ptrCompressedBitmap_def localSingleColor_def localBitVectorColor_def
                  maxBitVectorIDs_def wrap)
qed

lemma iter_loop_unoccupied:
  assumes fl: "setBits u AND flagMask = unoccupied"
  shows "cs it = u \<Longrightarrow> flag it = unoccupied \<Longrightarrow> cs_sz it = 62 \<Longrightarrow> ck_id it = 0 \<Longrightarrow>
         unat (it_setBits it) \<le> 62 \<Longrightarrow>
         iter_loop it (end_it u) acc = Some (acc @ replicate (62 - unat (it_setBits it)) 0)"
proof (induction "62 - unat (it_setBits it)" arbitrary: it acc rule: less_induct)
  case less
  let ?i = "it_setBits it"
  show ?case
  proof (cases "unat ?i < 62")
    case False
    with less.prems have "unat ?i = 62" by simp
    then have i62: "?i = 62" by (simp add: word_unat_eq_iff)
    have "it_eq it (end_it u)"
      using less.prems i62
      by (simp add: it_eq_def end_it_unoccupied [OF fl] unoccupied_def ptrCompressedBitmap_def)
    then show ?thesis
      using i62 by (subst iter_loop.simps) simp
  next
    case True
    then have ne: "?i \<noteq> 62" by auto
    have neq: "\<not> it_eq it (end_it u)"
      using less.prems ne
      by (simp add: it_eq_def end_it_unoccupied [OF fl] unoccupied_def ptrCompressedBitmap_def)
    have inc: "incr it = it\<lparr>it_setBits := ?i + 1\<rparr>"
      using less.prems ne
      by (simp add: incr_def Let_def unoccupied_def ptrCompressedBitmap_def
                    localBitVectorColor_def localSingleColor_def)
    have u1: "unat (?i + 1) = unat ?i + 1" using True by (rule unat_plus_small)
    have m: "62 - unat (it_setBits (incr it)) < 62 - unat ?i"
      using True by (simp add: inc u1)
    have ih: "iter_loop (incr it) (end_it u) (acc @ [ck_id it]) =
              Some ((acc @ [ck_id it]) @ replicate (62 - unat (?i + 1)) 0)"
      using less.hyps [OF m, of "acc @ [ck_id it]"] less.prems True
      by (simp add: inc u1)
    have rp: "replicate (62 - unat ?i) (0::size_t) = 0 # replicate (62 - unat (?i + 1)) 0"
      using True by (simp add: u1 Suc_diff_Suc flip: replicate_Suc)
    have "iter_loop it (end_it u) acc = iter_loop (incr it) (end_it u) (acc @ [ck_id it])"
      using neq by (subst iter_loop.simps) simp
    then show ?thesis
      unfolding ih rp using less.prems by simp
  qed
qed

lemma iterate_unoccupied:
  assumes fl: "setBits u AND flagMask = unoccupied"
  shows "iterate u = Some (replicate 62 0)"
proof -
  have "iter_loop (begin_it u) (end_it u) [] =
        Some ([] @ replicate (62 - unat (it_setBits (begin_it u))) 0)"
    by (intro iter_loop_unoccupied [OF fl]) (simp_all add: begin_it_unoccupied [OF fl])
  then show ?thesis
    by (simp add: iterate_def begin_it_unoccupied [OF fl])
qed

lemma iterate_occupied:
  assumes "isOccupied u"
  shows "iterate u = Some (color_kmer_ids u)"
proof -
  from assms flag_cases [of "setBits u"]
  consider "setBits u AND flagMask = ptrCompressedBitmap"
    | "setBits u AND flagMask = localBitVectorColor"
    | "setBits u AND flagMask = localSingleColor"
    by (auto simp: isOccupied_def)
  then show ?thesis
  proof cases
    case 1
    then show ?thesis
      by (simp add: iterate_def begin_it_bitmap color_kmer_ids_def)
  next
    case 2
    then show ?thesis
      by (simp add: iterate_def begin_it_bitvec color_kmer_ids_def
                    localBitVectorColor_def ptrCompressedBitmap_def)
  next
    case 3
    then show ?thesis
      by (simp add: iterate_def iter_loop_single color_kmer_ids_def
                    localBitVectorColor_def ptrCompressedBitmap_def localSingleColor_def)
  qed
qed

lemma unat_ucast_32_64:
  fixes x :: uint32_t
  shows "unat (ucast x :: size_t) = unat x"
proof -
  have "unat x < 2 ^ 32" using unsigned_less [of x, where ?'a = nat] by simp
  then have "unat x < 2 ^ 64" by simp
  then show ?thesis
    by (simp add: unsigned_ucast_eq take_bit_nat_eq_self)
qed

lemma strict_sorted_color_kmer_ids:
  "sorted_wrt (<) (color_kmer_ids u)"
proof -
  have bm: "sorted_wrt (<) (map (ucast :: uint32_t \<Rightarrow> size_t) (sorted_list_of_fset b))" for b
  proof -
    have "sorted_wrt (<) (sorted_list_of_fset b)"
      by (simp add: sorted_list_of_fset.rep_eq)
    then have "sorted_wrt (\<lambda>x y. (ucast x :: size_t) < ucast y) (sorted_list_of_fset b)"
      by (rule sorted_wrt_mono_rel [rotated])
         (simp add: word_less_nat_alt unat_ucast_32_64)
    then show ?thesis by (simp add: sorted_wrt_map)
  qed
  have bv: "sorted_wrt (<) (map (of_nat :: nat \<Rightarrow> size_t) (filter P [0..<62]))" for P
  proof -
    have "sorted_wrt (<) (filter P [0..<62])"
      by (rule sorted_wrt_filter) (simp only: sorted_wrt_upt)
    then have "sorted_wrt (\<lambda>x y. (of_nat x :: size_t) < of_nat y) (filter P [0..<62])"
    proof (rule sorted_wrt_mono_rel [rotated])
      fix x y assume "x \<in> set (filter P [0..<62])" "y \<in> set (filter P [0..<62])" "x < y"
      then have "x < 62" "y < 62" "x < y" by simp_all
      then show "(of_nat x :: size_t) < of_nat y"
        by (simp add: word_less_nat_alt unat_of_nat)
    qed
    then show ?thesis by (simp add: sorted_wrt_map)
  qed
  show ?thesis
    by (simp add: color_kmer_ids_def Let_def bm bv del: upt_rec_numeral)
qed

subsection \<open>What the iteration yields\<close>

text \<open>
  C8. For every occupied UnitigColors, whatever its representation (bitmap, bit
  vector or single id), the loop from \<open>begin()\<close> to \<open>end()\<close> terminates and yields
  exactly the ColorKmerIds the container holds, in strictly ascending order. The
  result is a function of the container's content alone, so it does not depend on
  the order in which the ids were added.
\<close>

theorem iterate_strictly_ascending:
  "isOccupied u \<Longrightarrow>
     iterate u = Some (color_kmer_ids u) \<and> sorted_wrt (<) (color_kmer_ids u) \<and>
     distinct (color_kmer_ids u)"
proof -
  assume occ: "isOccupied u"
  have "distinct (color_kmer_ids u)"
    using strict_sorted_color_kmer_ids [of u] by (simp add: strict_sorted_iff)
  with occ show ?thesis
    by (simp add: iterate_occupied strict_sorted_color_kmer_ids)
qed

theorem iterate_strictly_ascending_witness:
  "isOccupied \<lparr>setBits = 0x55, bitmap = {||}\<rparr> \<and>
   iterate \<lparr>setBits = 0x55, bitmap = {||}\<rparr> = Some [0, 2, 4] \<and>
   sorted_wrt (<) [0, 2, 4 :: size_t]"
proof -
  have occ: "isOccupied \<lparr>setBits = 0x55, bitmap = {||}\<rparr>"
    by (simp add: isOccupied_def flagMask_def unoccupied_def)
  have ids: "color_kmer_ids \<lparr>setBits = 0x55, bitmap = {||}\<rparr> = [0, 2, 4]"
    by code_simp
  show ?thesis
    using iterate_strictly_ascending [OF occ] occ by (simp add: ids)
qed

text \<open>
  C5. A default-constructed (unoccupied) UnitigColors does not iterate as empty:
  the constructor of the iterator gives it \<open>cs_sz = 62\<close>, so \<open>begin()\<close> stands at
  \<open>it_setBits = 0\<close> and \<open>end()\<close> at \<open>it_setBits = 62\<close>, they compare different, and the
  loop yields the initial \<open>ck_id = 0\<close> sixty-two times.
\<close>

theorem unoccupied_begin_differs_from_end:
  "isUnoccupied UnitigColors_new \<and>
   \<not> it_eq (begin_it UnitigColors_new) (end_it UnitigColors_new) \<and>
   iterate UnitigColors_new = Some (replicate 62 0)"
proof -
  have fl: "setBits UnitigColors_new AND flagMask = unoccupied"
    by (simp add: UnitigColors_new_def flagMask_def unoccupied_def)
  have "\<not> it_eq (begin_it UnitigColors_new) (end_it UnitigColors_new)"
    by (simp add: begin_it_unoccupied [OF fl] end_it_unoccupied [OF fl] it_eq_def
                  unoccupied_def ptrCompressedBitmap_def)
  with fl show ?thesis
    by (simp add: isUnoccupied_def iterate_unoccupied [OF fl])
qed

section \<open>Locating a UnitigColors\<close>


lemma deref_assign:
  "assign st p v = Inr st' \<Longrightarrow> deref st' p = Inr v"
  by (auto simp: assign_def deref_def at_index_def split: cs_ptr.splits option.splits if_splits)



section \<open>setColor\<close>

text \<open>
  C10. \<open>setColor\<close> returns false and leaves the storage as it was whenever the
  mapping is empty, the array is not allocated, or \<open>getColorSet\<close> finds no
  UnitigColors; whenever it returns false the storage is unchanged; and it returns
  true exactly when \<open>getColorSet\<close> found the UnitigColors of the mapping and the
  color was added to it, the storage after the call holding the result of \<open>add\<close> at
  that place.
\<close>

theorem setColor_result:
  "(isEmpty um \<or> color_sets st = None \<or> getColorSet hash st um = Inr None \<longrightarrow>
      setColor hash st um c = Inr (False, st)) \<and>
   (\<forall>st'. setColor hash st um c = Inr (False, st') \<longrightarrow> st' = st) \<and>
   (\<forall>st'. setColor hash st um c = Inr (True, st') \<longleftrightarrow>
      (\<exists>p u. \<not> isEmpty um \<and> color_sets st \<noteq> None \<and>
             getColorSet hash st um = Inr (Some p) \<and> deref st p = Inr u \<and>
             assign st p (UnitigColors_add (getK st) u um c) = Inr st' \<and>
             deref st' p = Inr (UnitigColors_add (getK st) u um c)))"
proof (intro conjI allI)
  show "isEmpty um \<or> color_sets st = None \<or> getColorSet hash st um = Inr None \<longrightarrow>
      setColor hash st um c = Inr (False, st)"
    by (auto simp: setColor_def)
  show "setColor hash st um c = Inr (False, st') \<longrightarrow> st' = st" for st'
    by (auto simp: setColor_def map_sum_def split: sum.splits option.splits if_splits)
  show "setColor hash st um c = Inr (True, st') \<longleftrightarrow>
      (\<exists>p u. \<not> isEmpty um \<and> color_sets st \<noteq> None \<and>
             getColorSet hash st um = Inr (Some p) \<and> deref st p = Inr u \<and>
             assign st p (UnitigColors_add (getK st) u um c) = Inr st' \<and>
             deref st' p = Inr (UnitigColors_add (getK st) u um c))" for st'
    by (auto simp: setColor_def map_sum_def deref_assign split: sum.splits option.splits if_splits)
qed

theorem setColor_result_witness:
  "color_sets ex_unallocated = None \<and>
   setColor ex_hash ex_unallocated ex_um_dest 0 = Inr (False, ex_unallocated) \<and>
   (\<exists>st'. setColor ex_hash ex_colored ex_um_dest 0 = Inr (True, st') \<and>
          deref st' (Slot 1) = Inr \<lparr>setBits = 61, bitmap = {||}\<rparr>)"
proof -
  have n: "color_sets ex_unallocated = None"
    by (simp add: ex_unallocated_def ex_cdbg_def)
  have f: "setColor ex_hash ex_unallocated ex_um_dest 0 = Inr (False, ex_unallocated)"
    using setColor_result [of ex_um_dest ex_unallocated ex_hash 0] n by simp
  have p: "getColorSet ex_hash ex_colored ex_um_dest = Inr (Some (Slot 1))"
    by code_simp
  have d: "deref ex_colored (Slot 1) = Inr \<lparr>setBits = 1, bitmap = {||}\<rparr>"
    by (simp add: deref_def ex_colored_def ex_cdbg_def at_index_def)
  have a: "UnitigColors_add (getK ex_colored) \<lparr>setBits = 1, bitmap = {||}\<rparr> ex_um_dest 0 =
           \<lparr>setBits = 61, bitmap = {||}\<rparr>"
    by code_simp
  obtain st' where s: "assign ex_colored (Slot 1) \<lparr>setBits = 61, bitmap = {||}\<rparr> = Inr st'"
    by (simp add: assign_def ex_colored_def ex_cdbg_def)
  have e: "\<not> isEmpty ex_um_dest" "color_sets ex_colored \<noteq> None"
    by (simp_all add: ex_um_dest_def UnitigMap_new_def ex_colored_def ex_cdbg_def)
  have "setColor ex_hash ex_colored ex_um_dest 0 = Inr (True, st') \<and>
        deref st' (Slot 1) = Inr \<lparr>setBits = 61, bitmap = {||}\<rparr>"
    using setColor_result [of ex_um_dest ex_colored ex_hash 0] p d a s e deref_assign [OF s]
    by auto
  with n f show ?thesis by blast
qed

section \<open>initColorSets\<close>

lemma valid_unitigs: "um \<in> set (unitigs g) \<Longrightarrow> valid_um g um"
  by (auto simp: unitigs_def valid_um_def UnitigMap_new_def)

lemma distinct_addr_unitigs: "distinct (map addr (unitigs g))"
  by (auto simp: unitigs_def addr_def UnitigMap_new_def distinct_map inj_on_def comp_def)

lemma addr_inj_unitigs:
  "u \<in> set (unitigs g) \<Longrightarrow> v \<in> set (unitigs g) \<Longrightarrow> addr u = addr v \<Longrightarrow> u = v"
  using distinct_addr_unitigs [of g] by (auto simp: distinct_map inj_on_def)

lemma setData_valid:
  assumes "valid_um g um"
  shows "\<exists>g'. setData g um b = Inr g'"
  using assms by (auto simp: valid_um_def setData_def set_snd_at_def)

lemma map_fst_update: "i < length xs \<Longrightarrow> map fst (xs[i := (fst (xs ! i), b)]) = map fst xs"
  by (simp add: map_update list_update_same_conv)

lemma setData_frame:
  assumes "setData g um b = Inr g'"
  shows "getK g' = getK g"
    and "map fst (v_unitigs g') = map fst (v_unitigs g)"
    and "map fst (v_kmers g') = map fst (v_kmers g)"
    and "map fst (h_kmers_ccov g') = map fst (h_kmers_ccov g)"
    and "CompactedDBG.more g' = CompactedDBG.more g"
  using assms
  by (auto simp: setData_def set_snd_at_def map_fst_update split: if_splits)

lemma length_from_map_fst: "map fst xs = map fst ys \<Longrightarrow> length xs = length ys"
  by (metis length_map)

lemma nth_fst_from_map_fst:
  "map fst xs = map fst ys \<Longrightarrow> i < length xs \<Longrightarrow> fst (xs ! i) = fst (ys ! i)"
  by (metis length_map nth_map)

lemma same_heads_getHead:
  assumes "getK g' = getK g"
    and "map fst (v_unitigs g') = map fst (v_unitigs g)"
    and "map fst (v_kmers g') = map fst (v_kmers g)"
    and "map fst (h_kmers_ccov g') = map fst (h_kmers_ccov g)"
  shows "getHead g' um = getHead g um"
  using assms length_from_map_fst [OF assms(2)] length_from_map_fst [OF assms(3)]
    length_from_map_fst [OF assms(4)]
    nth_fst_from_map_fst [OF assms(2)] nth_fst_from_map_fst [OF assms(3)]
    nth_fst_from_map_fst [OF assms(4)]
  by (simp add: getHead_def at_index_def)

lemma same_heads_unitigs:
  assumes "getK g' = getK g"
    and "map fst (v_unitigs g') = map fst (v_unitigs g)"
    and "map fst (v_kmers g') = map fst (v_kmers g)"
    and "map fst (h_kmers_ccov g') = map fst (h_kmers_ccov g)"
  shows "unitigs g' = unitigs g"
  using assms length_from_map_fst [OF assms(2)] length_from_map_fst [OF assms(3)]
    length_from_map_fst [OF assms(4)] nth_fst_from_map_fst [OF assms(2)]
  by (simp add: unitigs_def)

lemma same_heads_valid:
  assumes "map fst (v_unitigs g') = map fst (v_unitigs g)"
    and "map fst (v_kmers g') = map fst (v_kmers g)"
    and "map fst (h_kmers_ccov g') = map fst (h_kmers_ccov g)"
  shows "valid_um g' um = valid_um g um"
  using length_from_map_fst [OF assms(1)] length_from_map_fst [OF assms(2)]
    length_from_map_fst [OF assms(3)]
  by (simp add: valid_um_def)

lemma setData_getData_same:
  assumes "setData g um b = Inr g'" "\<not> isEmpty um"
  shows "getData g' um = Inr b"
  using assms
  by (auto simp: setData_def getData_def set_snd_at_def at_index_def split: if_splits)

lemma setData_getData_other:
  assumes "setData g um b = Inr g'" "addr um' \<noteq> addr um"
  shows "getData g' um' = getData g um'"
  using assms
  by (auto simp: setData_def getData_def set_snd_at_def at_index_def addr_def split: if_splits)

lemma getHead_valid: "valid_um g um \<Longrightarrow> \<exists>head. getHead g um = Inr head"
  by (auto simp: valid_um_def getHead_def at_index_def)

lemma probe_spec:
  "color_sets st = Some arr \<Longrightarrow> length arr = nb_color_sets st \<Longrightarrow> 0 < nb_color_sets st \<Longrightarrow>
   max_nb_hash \<le> 256 \<Longrightarrow> i \<le> max_nb_hash \<Longrightarrow>
     \<exists>i' h'. probe hash st head max_nb_hash i h_v = Inr (i', h') \<and> i \<le> i' \<and> i' \<le> max_nb_hash \<and>
       (i' < max_nb_hash \<longrightarrow>
          h' = unat (hash head (seeds st i')) mod nb_color_sets st \<and> isUnoccupied (arr ! h'))"
proof (induction hash st head max_nb_hash i h_v rule: probe.induct)
  case (1 hash st head max_nb_hash i h_v)
  note cs = "1.prems"(1,2,3) and mx = "1.prems"(4) and ile = "1.prems"(5)
  show ?case
  proof (cases "i < max_nb_hash")
    case False
    with ile show ?thesis
      by (subst probe.simps) simp
  next
    case True
    let ?h = "unat (hash head (seeds st i)) mod nb_color_sets st"
    have sd: "seed_at st i = Inr (seeds st i)"
      using True mx by (simp add: seed_at_def)
    have si: "slot_index hash st head (seeds st i) = Inr ?h"
      using cs(3) by (simp add: slot_index_def)
    have hl: "?h < length arr" using cs(2,3) by simp
    then have dr: "deref st (Slot ?h) = Inr (arr ! ?h)"
      using cs(1) by (simp add: deref_def at_index_def)
    show ?thesis
    proof (cases "isUnoccupied (arr ! ?h)")
      case u: True
      have "probe hash st head max_nb_hash i h_v = Inr (i, ?h)"
        using True u by (subst probe.simps) (simp add: sd si dr)
      with True u show ?thesis by simp
    next
      case nu: False
      have eq: "probe hash st head max_nb_hash i h_v = probe hash st head max_nb_hash (i + 1) ?h"
        using True nu by (subst probe.simps) (simp add: sd si dr)
      have "i + 1 \<le> max_nb_hash" using True by simp
      from "1.IH" [OF True sd si dr nu cs mx this]
      obtain i' h' where "probe hash st head max_nb_hash (i + 1) ?h = Inr (i', h')"
        "i + 1 \<le> i'" "i' \<le> max_nb_hash"
        "i' < max_nb_hash \<longrightarrow>
          h' = unat (hash head (seeds st i')) mod nb_color_sets st \<and> isUnoccupied (arr ! h')"
        by blast
      then show ?thesis unfolding eq by auto
    qed
  qed
qed

lemma setData_frame_colors:
  fixes g :: ColoredCDBG
  assumes "setData g um b = Inr g'"
  shows "color_sets g' = color_sets g" "nb_color_sets g' = nb_color_sets g"
    "km_overflow g' = km_overflow g" "seeds g' = seeds g"
  using assms
  by (auto simp: setData_def set_snd_at_def split: if_splits)

lemma setOccupied_isOccupied: "isOccupied (setOccupied u)"
  by (simp add: setOccupied_def isOccupied_def isUnoccupied_def localBitVectorColor_def
                flagMask_def unoccupied_def)

lemma occupied_not_unoccupied: "isOccupied u = (\<not> isUnoccupied u)"
  by (simp add: isOccupied_def isUnoccupied_def)

lemma unat_byte_of_nat:
  "n < 256 \<Longrightarrow> unat (of_nat n :: uint8_t) = n"
  by (simp add: unat_of_nat)

lemma getData_update_colors:
  fixes g :: ColoredCDBG
  shows "getData (g\<lparr>km_overflow := x\<rparr>) um = getData g um"
    "getData (g\<lparr>color_sets := y\<rparr>) um = getData g um"
  by (simp_all add: getData_def)

lemma getHead_update_colors:
  fixes g :: ColoredCDBG
  shows "getHead (g\<lparr>km_overflow := x\<rparr>) um = getHead g um"
    "getHead (g\<lparr>color_sets := y\<rparr>) um = getHead g um"
  by (simp_all add: getHead_def)

lemma slot_of_update_colors:
  fixes g :: ColoredCDBG
  shows "slot_of hash (g\<lparr>km_overflow := x\<rparr>) head a = slot_of hash g head a"
    "slot_of hash (g\<lparr>color_sets := y\<rparr>) head a = slot_of hash g head a"
  by (simp_all add: slot_of_def)

lemma init_unitig_step:
  assumes cs: "color_sets st = Some arr" "length arr = nb_color_sets st" "0 < nb_color_sets st"
    and mx: "max_nb_hash < 256"
    and v: "valid_um st um"
  shows "\<exists>st' head.
     init_unitig hash max_nb_hash st um = Inr st' \<and> getHead st um = Inr head \<and>
     getK st' = getK st \<and>
     map fst (v_unitigs st') = map fst (v_unitigs st) \<and>
     map fst (v_kmers st') = map fst (v_kmers st) \<and>
     map fst (h_kmers_ccov st') = map fst (h_kmers_ccov st) \<and>
     seeds st' = seeds st \<and> nb_color_sets st' = nb_color_sets st \<and>
     (\<forall>um'. addr um' \<noteq> addr um \<longrightarrow> getData st' um' = getData st um') \<and>
     ((getData st' um = Inr 0 \<and> color_sets st' = Some arr \<and>
       dom (km_overflow st') = insert head (dom (km_overflow st))) \<or>
      (\<exists>a. a \<noteq> 0 \<and> getData st' um = Inr a \<and> slot_of hash st' head a < length arr \<and>
           isUnoccupied (arr ! slot_of hash st' head a) \<and>
           color_sets st' =
             Some (arr[slot_of hash st' head a := setOccupied (arr ! slot_of hash st' head a)]) \<and>
           km_overflow st' = km_overflow st))"
proof -
  from getHead_valid [OF v] obtain head where hd: "getHead st um = Inr head" by blast
  have m256: "max_nb_hash \<le> 256" using mx by simp
  from probe_spec [OF cs m256, of 0 hash head 0]
  obtain i h where pr: "probe hash st head max_nb_hash 0 0 = Inr (i, h)"
    and ile: "i \<le> max_nb_hash"
    and found: "i < max_nb_hash \<longrightarrow>
          h = unat (hash head (seeds st i)) mod nb_color_sets st \<and> isUnoccupied (arr ! h)"
    by auto
  let ?b = "of_nat (if i = max_nb_hash then 0 else i + 1) :: uint8_t"
  from setData_valid [OF v, of ?b] obtain st1 where sd: "setData st um ?b = Inr st1" by blast
  note fr = setData_frame [OF sd]
  have ne: "\<not> isEmpty um" using v by (simp add: valid_um_def)
  note more = setData_frame_colors [OF sd]
  note oth = setData_getData_other [OF sd]
  note same = setData_getData_same [OF sd ne]
  show ?thesis
  proof (cases "i = max_nb_hash")
    case True
    let ?st' = "st1\<lparr>km_overflow := kmer_insert (km_overflow st1) head UnitigColors_new\<rparr>"
    have r: "init_unitig hash max_nb_hash st um = Inr ?st'"
      using True sd by (simp add: init_unitig_def hd pr)
    note gd = getData_update_colors
    have d: "dom (km_overflow ?st') = insert head (dom (km_overflow st))"
      by (auto simp: kmer_insert_def more split: if_splits)
    show ?thesis
      apply (rule exI [of _ ?st'], rule exI [of _ head])
      using True same oth d cs(1)
      by (simp add: r hd fr more gd)
  next
    case False
    with ile have lt: "i < max_nb_hash" by simp
    with found have h: "h = unat (hash head (seeds st i)) mod nb_color_sets st"
      and un: "isUnoccupied (arr ! h)" by blast+
    have hl: "h < length arr" using h cs(2,3) by simp
    let ?a = "of_nat (i + 1) :: uint8_t"
    have ua: "unat ?a = i + 1" using lt mx by (simp only: unat_byte_of_nat)
    then have a0: "?a \<noteq> 0" by (metis Zero_not_Suc Suc_eq_plus1 unat_0)
    let ?st' = "st1\<lparr>color_sets := Some (arr[h := setOccupied (arr ! h)])\<rparr>"
    have dr: "deref st1 (Slot h) = Inr (arr ! h)"
      using hl cs(1) by (simp add: deref_def at_index_def more)
    have r: "init_unitig hash max_nb_hash st um = Inr ?st'"
      using False sd hl cs(1)
      by (simp add: init_unitig_def hd pr dr assign_def more)
    note gd = getData_update_colors
    have sl: "slot_of hash st1 head ?a = h"
      using ua by (simp add: slot_of_def h more)
    show ?thesis
      apply (rule exI [of _ ?st'], rule exI [of _ head])
      apply (intro conjI)
               apply (simp_all add: r hd fr more gd oth)
      apply (rule disjI2, rule exI [of _ ?a])
      using a0 same False hl un sl
      by (simp add: gd slot_of_update_colors)
  qed
qed

lemma init_invI:
  assumes "color_sets st = Some arr" "length arr = nb_color_sets st"
    and "\<forall>u \<in> set seen. \<exists>head a. getHead st u = Inr head \<and> getData st u = Inr a \<and>
            (a \<noteq> 0 \<longrightarrow> slot_of hash st head a < length arr \<and>
                      isOccupied (arr ! slot_of hash st head a))"
    and "\<forall>u \<in> set seen. \<forall>v \<in> set seen. \<forall>hu au hv av.
            addr u \<noteq> addr v \<and> getHead st u = Inr hu \<and> getData st u = Inr au \<and>
            getHead st v = Inr hv \<and> getData st v = Inr av \<and> au \<noteq> 0 \<and> av \<noteq> 0 \<longrightarrow>
            slot_of hash st hu au \<noteq> slot_of hash st hv av"
    and "dom (km_overflow st) =
          {head. \<exists>u \<in> set seen. getHead st u = Inr head \<and> getData st u = Inr 0}"
  shows "init_inv hash seen st"
  unfolding init_inv_def
  by (rule exI [of _ arr]) (intro conjI assms)

lemma init_inv_step:
  assumes inv: "init_inv hash seen st" and pos: "0 < nb_color_sets st"
    and mx: "max_nb_hash < 256" and v: "valid_um st um"
    and fresh: "\<forall>u \<in> set seen. addr u \<noteq> addr um"
  shows "\<exists>st'. init_unitig hash max_nb_hash st um = Inr st' \<and>
           init_inv hash (seen @ [um]) st' \<and> getK st' = getK st \<and>
           map fst (v_unitigs st') = map fst (v_unitigs st) \<and>
           map fst (v_kmers st') = map fst (v_kmers st) \<and>
           map fst (h_kmers_ccov st') = map fst (h_kmers_ccov st) \<and>
           nb_color_sets st' = nb_color_sets st"
proof -
  from inv obtain arr where arr: "color_sets st = Some arr" "length arr = nb_color_sets st"
    and occ: "\<forall>u \<in> set seen. \<exists>head a. getHead st u = Inr head \<and> getData st u = Inr a \<and>
            (a \<noteq> 0 \<longrightarrow> slot_of hash st head a < length arr \<and>
                      isOccupied (arr ! slot_of hash st head a))"
    and dis: "\<forall>u \<in> set seen. \<forall>v \<in> set seen. \<forall>hu au hv av.
            addr u \<noteq> addr v \<and> getHead st u = Inr hu \<and> getData st u = Inr au \<and>
            getHead st v = Inr hv \<and> getData st v = Inr av \<and> au \<noteq> 0 \<and> av \<noteq> 0 \<longrightarrow>
            slot_of hash st hu au \<noteq> slot_of hash st hv av"
    and ovf: "dom (km_overflow st) =
          {head. \<exists>u \<in> set seen. getHead st u = Inr head \<and> getData st u = Inr 0}"
    unfolding init_inv_def by blast
  from init_unitig_step [OF arr pos mx v, of hash]
  obtain st' head where r: "init_unitig hash max_nb_hash st um = Inr st'"
    and hd: "getHead st um = Inr head"
    and k: "getK st' = getK st"
    and f1: "map fst (v_unitigs st') = map fst (v_unitigs st)"
    and f2: "map fst (v_kmers st') = map fst (v_kmers st)"
    and f3: "map fst (h_kmers_ccov st') = map fst (h_kmers_ccov st)"
    and sds: "seeds st' = seeds st" and nb: "nb_color_sets st' = nb_color_sets st"
    and oth: "\<forall>um'. addr um' \<noteq> addr um \<longrightarrow> getData st' um' = getData st um'"
    and cases: "(getData st' um = Inr 0 \<and> color_sets st' = Some arr \<and>
       dom (km_overflow st') = insert head (dom (km_overflow st))) \<or>
      (\<exists>a. a \<noteq> 0 \<and> getData st' um = Inr a \<and> slot_of hash st' head a < length arr \<and>
           isUnoccupied (arr ! slot_of hash st' head a) \<and>
           color_sets st' =
             Some (arr[slot_of hash st' head a := setOccupied (arr ! slot_of hash st' head a)]) \<and>
           km_overflow st' = km_overflow st)"
    by blast
  have gh: "getHead st' u = getHead st u" for u
    by (rule same_heads_getHead [OF k f1 f2 f3])
  have so: "slot_of hash st' h a = slot_of hash st h a" for h a
    by (simp add: slot_of_def sds nb)
  have gd: "u \<in> set seen \<Longrightarrow> getData st' u = getData st u" for u
    using fresh oth by blast
  have hd': "getHead st' um = Inr head" by (simp add: gh hd)
  from cases have "init_inv hash (seen @ [um]) st'"
  proof (elim disjE conjE exE)
    assume a0: "getData st' um = Inr 0" and c: "color_sets st' = Some arr"
      and d: "dom (km_overflow st') = insert head (dom (km_overflow st))"
    have 1: "\<forall>u \<in> set (seen @ [um]). \<exists>head a. getHead st' u = Inr head \<and> getData st' u = Inr a \<and>
            (a \<noteq> 0 \<longrightarrow> slot_of hash st' head a < length arr \<and>
                      isOccupied (arr ! slot_of hash st' head a))"
      using occ a0 hd' by (auto simp: gh gd so)
    have 2: "\<forall>u \<in> set (seen @ [um]). \<forall>v \<in> set (seen @ [um]). \<forall>hu au hv av.
            addr u \<noteq> addr v \<and> getHead st' u = Inr hu \<and> getData st' u = Inr au \<and>
            getHead st' v = Inr hv \<and> getData st' v = Inr av \<and> au \<noteq> 0 \<and> av \<noteq> 0 \<longrightarrow>
            slot_of hash st' hu au \<noteq> slot_of hash st' hv av"
      using dis a0 by (auto simp: gh gd so)
    have 3: "dom (km_overflow st') =
          {head. \<exists>u \<in> set (seen @ [um]). getHead st' u = Inr head \<and> getData st' u = Inr 0}"
      using a0 hd' by (auto simp: d ovf gh gd)
    have len: "length arr = nb_color_sets st'" using arr(2) nb by simp
    show ?thesis
      by (rule init_invI [OF c len 1 2 3])
  next
    fix a
    assume a0: "a \<noteq> 0" and ga: "getData st' um = Inr a"
      and hl: "slot_of hash st' head a < length arr"
      and un: "isUnoccupied (arr ! slot_of hash st' head a)"
      and c: "color_sets st' =
             Some (arr[slot_of hash st' head a := setOccupied (arr ! slot_of hash st' head a)])"
      and o: "km_overflow st' = km_overflow st"
    let ?h = "slot_of hash st head a"
    let ?arr' = "arr[?h := setOccupied (arr ! ?h)]"
    have hl': "?h < length arr" and un': "isUnoccupied (arr ! ?h)"
      and c': "color_sets st' = Some ?arr'"
      using hl un c by (simp_all add: so)
    have old: "u \<in> set seen \<Longrightarrow> getHead st u = Inr hu \<Longrightarrow> getData st u = Inr au \<Longrightarrow> au \<noteq> 0 \<Longrightarrow>
               slot_of hash st hu au < length arr \<and> isOccupied (arr ! slot_of hash st hu au) \<and>
               slot_of hash st hu au \<noteq> ?h" for u hu au
    proof -
      assume "u \<in> set seen" "getHead st u = Inr hu" "getData st u = Inr au" "au \<noteq> 0"
      with occ have "slot_of hash st hu au < length arr \<and> isOccupied (arr ! slot_of hash st hu au)"
        by fastforce
      moreover from this un' have "slot_of hash st hu au \<noteq> ?h"
        by (auto simp: occupied_not_unoccupied)
      ultimately show ?thesis by simp
    qed
    have 1: "\<forall>u \<in> set (seen @ [um]). \<exists>head a. getHead st' u = Inr head \<and> getData st' u = Inr a \<and>
            (a \<noteq> 0 \<longrightarrow> slot_of hash st' head a < length ?arr' \<and>
                      isOccupied (?arr' ! slot_of hash st' head a))"
    proof
      fix u assume "u \<in> set (seen @ [um])"
      then consider "u \<in> set seen" | "u = um" by auto
      then show "\<exists>head a. getHead st' u = Inr head \<and> getData st' u = Inr a \<and>
            (a \<noteq> 0 \<longrightarrow> slot_of hash st' head a < length ?arr' \<and>
                      isOccupied (?arr' ! slot_of hash st' head a))"
      proof cases
        case 1
        with occ obtain hu au where "getHead st u = Inr hu" "getData st u = Inr au" by blast
        with 1 old [OF 1 this] show ?thesis
          by (auto simp: gh gd so)
      next
        case 2
        then show ?thesis
          using hd' ga hl' by (auto simp: so setOccupied_isOccupied)
      qed
    qed
    have 2: "\<forall>u \<in> set (seen @ [um]). \<forall>v \<in> set (seen @ [um]). \<forall>hu au hv av.
            addr u \<noteq> addr v \<and> getHead st' u = Inr hu \<and> getData st' u = Inr au \<and>
            getHead st' v = Inr hv \<and> getData st' v = Inr av \<and> au \<noteq> 0 \<and> av \<noteq> 0 \<longrightarrow>
            slot_of hash st' hu au \<noteq> slot_of hash st' hv av"
    proof (intro ballI allI impI, elim conjE)
      fix u v hu au hv av
      assume uv: "u \<in> set (seen @ [um])" "v \<in> set (seen @ [um])" "addr u \<noteq> addr v"
        and gu: "getHead st' u = Inr hu" "getData st' u = Inr au" "au \<noteq> 0"
        and gv: "getHead st' v = Inr hv" "getData st' v = Inr av" "av \<noteq> 0"
      from uv consider "u \<in> set seen" "v \<in> set seen" | "u \<in> set seen" "v = um"
        | "u = um" "v \<in> set seen"
        by auto
      then show "slot_of hash st' hu au \<noteq> slot_of hash st' hv av"
      proof cases
        case 1
        with dis uv(3) gu gv show ?thesis
          by (simp add: gh gd so)
      next
        case 2
        with gv hd' ga have "hv = head" "av = a" by simp_all
        moreover from 2 gu have "slot_of hash st hu au \<noteq> ?h"
          using old [of u hu au] by (simp add: gh gd)
        ultimately show ?thesis by (simp add: so)
      next
        case 3
        with gu hd' ga have "hu = head" "au = a" by simp_all
        moreover from 3 gv have "slot_of hash st hv av \<noteq> ?h"
          using old [of v hv av] by (simp add: gh gd)
        ultimately show ?thesis by (simp add: so)
      qed
    qed
    have 3: "dom (km_overflow st') =
          {head. \<exists>u \<in> set (seen @ [um]). getHead st' u = Inr head \<and> getData st' u = Inr 0}"
      using a0 ga by (auto simp: o ovf gh gd)
    have len: "length ?arr' = nb_color_sets st'" using arr(2) nb by simp
    show ?thesis
      by (rule init_invI [OF c' len 1 2 3])
  qed
  with r k f1 f2 f3 nb show ?thesis by blast
qed

lemma init_loop_inv:
  "init_inv hash seen st \<Longrightarrow> max_nb_hash < 256 \<Longrightarrow>
   (rest \<noteq> [] \<longrightarrow> 0 < nb_color_sets st) \<Longrightarrow>
   \<forall>u \<in> set rest. valid_um st u \<Longrightarrow> distinct (map addr (seen @ rest)) \<Longrightarrow>
   \<exists>st'. init_loop hash max_nb_hash rest st = Inr st' \<and>
         init_inv hash (seen @ rest) st' \<and> getK st' = getK st \<and>
         map fst (v_unitigs st') = map fst (v_unitigs st) \<and>
         map fst (v_kmers st') = map fst (v_kmers st) \<and>
         map fst (h_kmers_ccov st') = map fst (h_kmers_ccov st) \<and>
         nb_color_sets st' = nb_color_sets st"
proof (induction rest arbitrary: seen st)
  case Nil
  then show ?case by simp
next
  case (Cons um rest)
  have pos: "0 < nb_color_sets st" using Cons.prems(3) by simp
  have v: "valid_um st um" using Cons.prems(4) by simp
  have "addr um \<notin> addr ` set seen"
    using Cons.prems(5) by auto
  then have fresh: "\<forall>u \<in> set seen. addr u \<noteq> addr um"
    by (metis imageI)
  from init_inv_step [OF Cons.prems(1) pos Cons.prems(2) v fresh]
  obtain st1 where r: "init_unitig hash max_nb_hash st um = Inr st1"
    and inv1: "init_inv hash (seen @ [um]) st1"
    and k: "getK st1 = getK st"
    and f1: "map fst (v_unitigs st1) = map fst (v_unitigs st)"
    and f2: "map fst (v_kmers st1) = map fst (v_kmers st)"
    and f3: "map fst (h_kmers_ccov st1) = map fst (h_kmers_ccov st)"
    and nb: "nb_color_sets st1 = nb_color_sets st"
    by blast
  have pos1: "rest \<noteq> [] \<longrightarrow> 0 < nb_color_sets st1" using pos nb by simp
  have v1: "\<forall>u \<in> set rest. valid_um st1 u"
    using Cons.prems(4) by (simp add: same_heads_valid [OF f1 f2 f3])
  have d1: "distinct (map addr ((seen @ [um]) @ rest))"
    using Cons.prems(5) by simp
  from Cons.IH [OF inv1 Cons.prems(2) pos1 v1 d1]
  obtain st' where "init_loop hash max_nb_hash rest st1 = Inr st'"
    "init_inv hash ((seen @ [um]) @ rest) st'" "getK st' = getK st1"
    "map fst (v_unitigs st') = map fst (v_unitigs st1)"
    "map fst (v_kmers st') = map fst (v_kmers st1)"
    "map fst (h_kmers_ccov st') = map fst (h_kmers_ccov st1)"
    "nb_color_sets st' = nb_color_sets st1"
    by blast
  then show ?case
    using r k f1 f2 f3 nb by simp
qed

lemma initColorSets_inv:
  assumes mx: "max_nb_hash < 256" and e: "km_overflow st = Map.empty"
  shows "\<exists>st'. initColorSets hash max_nb_hash st = Inr st' \<and>
           init_inv hash (unitigs st') st' \<and> unitigs st' = unitigs st \<and>
           nb_color_sets st' = size_graph st"
proof -
  let ?n = "size_graph st"
  let ?st0 = "st\<lparr>nb_color_sets := ?n, color_sets := Some (replicate ?n UnitigColors_new)\<rparr>"
  have u0: "unitigs ?st0 = unitigs st" by (simp add: unitigs_def)
  have inv0: "init_inv hash [] ?st0"
    by (rule init_invI [where arr = "replicate ?n UnitigColors_new"]) (simp_all add: e)
  have pos: "unitigs ?st0 \<noteq> [] \<longrightarrow> 0 < nb_color_sets ?st0"
    by (auto simp: unitigs_def size_graph_def)
  have v: "\<forall>u \<in> set (unitigs ?st0). valid_um ?st0 u"
    by (simp add: valid_unitigs)
  have d: "distinct (map addr ([] @ unitigs ?st0))"
    by (simp add: distinct_addr_unitigs)
  from init_loop_inv [OF inv0 mx pos v d]
  obtain st' where r: "init_loop hash max_nb_hash (unitigs ?st0) ?st0 = Inr st'"
    and inv: "init_inv hash ([] @ unitigs ?st0) st'"
    and k: "getK st' = getK ?st0"
    and f: "map fst (v_unitigs st') = map fst (v_unitigs ?st0)"
      "map fst (v_kmers st') = map fst (v_kmers ?st0)"
      "map fst (h_kmers_ccov st') = map fst (h_kmers_ccov ?st0)"
    and nb: "nb_color_sets st' = nb_color_sets ?st0"
    by blast
  have us: "unitigs st' = unitigs ?st0"
    by (rule same_heads_unitigs [OF k f])
  have "initColorSets hash max_nb_hash st = Inr st'"
    using r by (simp add: initColorSets_def Let_def)
  with inv us u0 nb show ?thesis by simp
qed

text \<open>
  C7. With at most 255 seeds tried (so that \<open>i + 1\<close> fits the byte) and an overflow
  table that starts empty, \<open>initColorSets\<close> completes, and afterwards: every unitig
  whose byte \<open>a\<close> is nonzero has the slot \<open>hash(head, seeds[a - 1]) % nb_color_sets\<close>
  inside the array and occupied; two distinct unitigs with nonzero bytes have
  distinct slots; and the overflow table contains exactly the head k-mers of the
  unitigs whose byte is 0.
\<close>

theorem initColorSets_establishes_invariants:
  assumes "max_nb_hash < 256" and "km_overflow st = Map.empty"
  shows "\<exists>st' arr. initColorSets hash max_nb_hash st = Inr st' \<and>
     color_sets st' = Some arr \<and> length arr = nb_color_sets st' \<and>
     nb_color_sets st' = size_graph st \<and> unitigs st' = unitigs st \<and>
     (\<forall>u \<in> set (unitigs st'). \<exists>head a. getHead st' u = Inr head \<and> getData st' u = Inr a \<and>
        (a \<noteq> 0 \<longrightarrow> slot_of hash st' head a < length arr \<and>
                  isOccupied (arr ! slot_of hash st' head a))) \<and>
     (\<forall>u \<in> set (unitigs st'). \<forall>v \<in> set (unitigs st'). \<forall>hu au hv av.
        u \<noteq> v \<and> getHead st' u = Inr hu \<and> getData st' u = Inr au \<and>
        getHead st' v = Inr hv \<and> getData st' v = Inr av \<and> au \<noteq> 0 \<and> av \<noteq> 0 \<longrightarrow>
        slot_of hash st' hu au \<noteq> slot_of hash st' hv av) \<and>
     dom (km_overflow st') =
       {head. \<exists>u \<in> set (unitigs st'). getHead st' u = Inr head \<and> getData st' u = Inr 0}"
proof -
  from initColorSets_inv [OF assms, of hash]
  obtain st' where r: "initColorSets hash max_nb_hash st = Inr st'"
    and inv: "init_inv hash (unitigs st') st'" and us: "unitigs st' = unitigs st"
    and nb: "nb_color_sets st' = size_graph st"
    by blast
  from inv obtain arr where arr: "color_sets st' = Some arr" "length arr = nb_color_sets st'"
    and occ: "\<forall>u \<in> set (unitigs st'). \<exists>head a. getHead st' u = Inr head \<and>
            getData st' u = Inr a \<and>
            (a \<noteq> 0 \<longrightarrow> slot_of hash st' head a < length arr \<and>
                      isOccupied (arr ! slot_of hash st' head a))"
    and dis: "\<forall>u \<in> set (unitigs st'). \<forall>v \<in> set (unitigs st'). \<forall>hu au hv av.
            addr u \<noteq> addr v \<and> getHead st' u = Inr hu \<and> getData st' u = Inr au \<and>
            getHead st' v = Inr hv \<and> getData st' v = Inr av \<and> au \<noteq> 0 \<and> av \<noteq> 0 \<longrightarrow>
            slot_of hash st' hu au \<noteq> slot_of hash st' hv av"
    and ovf: "dom (km_overflow st') =
          {head. \<exists>u \<in> set (unitigs st'). getHead st' u = Inr head \<and> getData st' u = Inr 0}"
    unfolding init_inv_def by blast
  have dis': "\<forall>u \<in> set (unitigs st'). \<forall>v \<in> set (unitigs st'). \<forall>hu au hv av.
        u \<noteq> v \<and> getHead st' u = Inr hu \<and> getData st' u = Inr au \<and>
        getHead st' v = Inr hv \<and> getData st' v = Inr av \<and> au \<noteq> 0 \<and> av \<noteq> 0 \<longrightarrow>
        slot_of hash st' hu au \<noteq> slot_of hash st' hv av"
  proof (intro ballI allI impI, elim conjE)
    fix u v hu au hv av
    assume uv: "u \<in> set (unitigs st')" "v \<in> set (unitigs st')" "u \<noteq> v"
      and g: "getHead st' u = Inr hu" "getData st' u = Inr au"
        "getHead st' v = Inr hv" "getData st' v = Inr av" "au \<noteq> 0" "av \<noteq> 0"
    from uv have "addr u \<noteq> addr v" using addr_inj_unitigs by blast
    with dis uv g show "slot_of hash st' hu au \<noteq> slot_of hash st' hv av" by blast
  qed
  show ?thesis
    apply (rule exI [of _ st'], rule exI [of _ arr])
    using r arr nb us occ dis' ovf by (intro conjI) assumption+
qed

theorem initColorSets_establishes_invariants_witness:
  "(31::nat) < 256 \<and> km_overflow ex_cdbg = Map.empty \<and>
   map_sum id (\<lambda>st. (v_unitigs st, color_sets st, nb_color_sets st, km_overflow st ''CCGTT''))
     (initColorSets ex_hash 31 ex_cdbg) =
   Inr ([(''ACGTACGT'', 1), (''CCGTTAA'', 2)],
        Some [\<lparr>setBits = 1, bitmap = {||}\<rparr>, \<lparr>setBits = 1, bitmap = {||}\<rparr>], 2, None) \<and>
   (1::nat) < 256 \<and>
   map_sum id (\<lambda>st. (v_unitigs st, color_sets st, nb_color_sets st, km_overflow st ''CCGTT''))
     (initColorSets ex_hash 1 ex_cdbg) =
   Inr ([(''ACGTACGT'', 1), (''CCGTTAA'', 0)],
        Some [\<lparr>setBits = 3, bitmap = {||}\<rparr>, \<lparr>setBits = 1, bitmap = {||}\<rparr>], 2,
        Some \<lparr>setBits = 3, bitmap = {||}\<rparr>)"
proof -
  have e: "km_overflow ex_cdbg = Map.empty" by (simp add: ex_cdbg_def)
  have a: "map_sum id (\<lambda>st. (v_unitigs st, color_sets st, nb_color_sets st, km_overflow st ''CCGTT''))
     (initColorSets ex_hash 31 ex_cdbg) =
   Inr ([(''ACGTACGT'', 1), (''CCGTTAA'', 2)],
        Some [\<lparr>setBits = 1, bitmap = {||}\<rparr>, \<lparr>setBits = 1, bitmap = {||}\<rparr>], 2, None)"
    by code_simp
  have b: "map_sum id (\<lambda>st. (v_unitigs st, color_sets st, nb_color_sets st, km_overflow st ''CCGTT''))
     (initColorSets ex_hash 1 ex_cdbg) =
   Inr ([(''ACGTACGT'', 1), (''CCGTTAA'', 0)],
        Some [\<lparr>setBits = 3, bitmap = {||}\<rparr>, \<lparr>setBits = 1, bitmap = {||}\<rparr>], 2,
        Some \<lparr>setBits = 3, bitmap = {||}\<rparr>)"
    by code_simp
  have l: "(31::nat) < 256" "(1::nat) < 256" by simp_all
  show ?thesis
    using initColorSets_establishes_invariants [OF l(1) e, of ex_hash] a b e by simp
qed

section \<open>getColorSet on the storage initColorSets leaves\<close>











section \<open>joinColors, extractColors and mapColors on the small graph\<close>

lemma joinColors_reversed_dest_keeps_storage:
  assumes "\<not> strand um_dest" "joinColors hash st um_dest um_src = Inr (b, st')"
  shows "st' = st"
  using assms
  by (auto simp: joinColors_def Let_def map_sum_def
           split: if_splits sum.splits option.splits prod.splits)

text \<open>
  Where the length in bases and the number of k-mers coincide (k = 1), the join of
  a destination of 4 k-mers with color 0 and a source of 3 k-mers with color 1 is
  built for 7 k-mers, the source shifted by 4.
\<close>

lemma joinColors_forward_k1:
  "map_sum id (\<lambda>r. (fst r, colors_at (snd r) (Slot 1)))
     (joinColors ex_hash ex_two_colors_k1
        (UnitigMap_new 0 0 4 4 False False True) (UnitigMap_new 1 0 3 3 False False True)) =
   Inr (True, Some [0, 1, 2, 3, 11, 12, 13])"
  by code_simp

text \<open>
  C2. On the graph with k = 5, the destination (8 bases, 4 k-mers) holds color 0 on
  positions 0 to 3 and the forward source (7 bases, 3 k-mers) holds color 1 on
  positions 0 to 2. \<open>joinColors\<close> builds the merged container for a unitig of
  \<open>um_dest.size + um_src.size = 15\<close> bases, that is 11 k-mers and not 7, and shifts the
  source by \<open>um_dest.size = 8\<close> positions and not 4: the ids stored are 0, 1, 2, 3, 19,
  20, 21 and not 0, 1, 2, 3, 11, 12, 13.
\<close>

theorem joinColors_forward_example:
  "getK ex_two_colors = 5 \<and>
   colors_at ex_two_colors (Slot 1) = Some [0, 1, 2, 3] \<and>
   colors_at ex_two_colors (Slot 0) = Some [3, 4, 5] \<and>
   getColorSet ex_hash ex_two_colors ex_um_dest = Inr (Some (Slot 1)) \<and>
   getColorSet ex_hash ex_two_colors ex_um_src = Inr (Some (Slot 0)) \<and>
   map_sum id (\<lambda>r. (fst r, colors_at (snd r) (Slot 1)))
     (joinColors ex_hash ex_two_colors ex_um_dest ex_um_src) =
   Inr (True, Some [0, 1, 2, 3, 19, 20, 21])"
  by code_simp

text \<open>
  C3. With the destination mapped on its reverse strand, \<open>color_set_dest\<close> is made
  to point at the local reversed copy \<open>csd_rev\<close>, and the final assignment
  \<open>*color_set_dest = new_cs\<close> writes there: \<open>joinColors\<close> returns true and the storage
  is as before, the destination still holding its own four ids. On the forward
  strand the same call does replace the stored container.
\<close>

theorem joinColors_reversed_dest_example:
  "\<not> strand ex_um_dest_rev \<and>
   joinColors ex_hash ex_two_colors ex_um_dest_rev ex_um_src = Inr (True, ex_two_colors) \<and>
   colors_at ex_two_colors (Slot 1) = Some [0, 1, 2, 3] \<and>
   map_sum id (\<lambda>r. (fst r, colors_at (snd r) (Slot 1)))
     (joinColors ex_hash ex_two_colors ex_um_dest ex_um_src) =
   Inr (True, Some [0, 1, 2, 3, 19, 20, 21])"
proof -
  have s: "\<not> strand ex_um_dest_rev"
    by (simp add: ex_um_dest_rev_def UnitigMap_new_def)
  have "map_sum id fst (joinColors ex_hash ex_two_colors ex_um_dest_rev ex_um_src) = Inr True"
    by code_simp
  then obtain st' where r: "joinColors ex_hash ex_two_colors ex_um_dest_rev ex_um_src = Inr (True, st')"
    by (cases "joinColors ex_hash ex_two_colors ex_um_dest_rev ex_um_src") auto
  from joinColors_reversed_dest_keeps_storage [OF s r]
  have j: "joinColors ex_hash ex_two_colors ex_um_dest_rev ex_um_src = Inr (True, ex_two_colors)"
    using r by simp
  have c: "colors_at ex_two_colors (Slot 1) = Some [0, 1, 2, 3]"
    by code_simp
  have f: "map_sum id (\<lambda>r. (fst r, colors_at (snd r) (Slot 1)))
     (joinColors ex_hash ex_two_colors ex_um_dest ex_um_src) =
   Inr (True, Some [0, 1, 2, 3, 19, 20, 21])"
    by code_simp
  from s j c f show ?thesis by simp
qed

text \<open>
  C4. Scenario 3 of the specification: from the first unitig with colors
  0, 1, 2, 3, 6, 7 (k = 5, 4 k-mers), extract \<open>dist = 1\<close>, \<open>len = 2\<close>. The mapping
  \<open>fake_um\<close> handed to \<open>add\<close> has \<open>size = um.len = 2\<close>, a number of k-mers where a number
  of bases is expected, so the ids are built for \<open>2 - 5 + 1\<close> k-mers (a wrapped-around
  64-bit value) and not for 2: the result holds 0, 1 and 4294967295 and not 0, 1, 3.
\<close>

theorem extractColors_example:
  "getK ex_scenario1 = 5 \<and>
   colors_at ex_scenario1 (Slot 1) = Some [0, 1, 2, 3, 6, 7] \<and>
   getColorSet ex_hash ex_scenario1 ex_um_part = Inr (Some (Slot 1)) \<and>
   map_sum id iterate (extractColors ex_hash ex_scenario1 ex_um_part) =
   Inr (Some [0, 1, 4294967295])"
  by code_simp

text \<open>
  C1. Two files of one sequence each, read in one chunk (the default chunk size is
  10000): the reader leaves \<open>file_id = 1\<close>, and the worker colors the unitig of the
  first file's sequence with color 1 (ids 4 to 7 for its 4 k-mers) where its source
  file is file 0 (ids 0 to 3). With a chunk size of 1 each chunk holds sequences of
  one file and the colors are the source files.
\<close>

theorem mapColors_chunk_example:
  "map_option (map_sum id (\<lambda>st. (colors_at st (Slot 1), colors_at st (Slot 0))))
     (mapColors ex_hash ex_kmer_maps \<lparr>nb_threads = 1, read_chunksize = 10000\<rparr>
        ex_files ex_colored) =
   Some (Inr (Some [4, 5, 6, 7], Some [3, 4, 5])) \<and>
   map_option (map_sum id (\<lambda>st. (colors_at st (Slot 1), colors_at st (Slot 0))))
     (mapColors ex_hash ex_kmer_maps \<lparr>nb_threads = 1, read_chunksize = 1\<rparr>
        ex_files ex_colored) =
   Some (Inr (Some [0, 1, 2, 3], Some [3, 4, 5]))"
  by code_simp

end
